theory Spec2Isabelle
  imports Main "HOL-Library.Char_ord" "HOL-Library.List_Lexorder"
begin

section \<open>The Network Firewall resource: data model\<close>

text \<open>
  The development embeds the resource \<open>aws_networkfirewall_firewall\<close>
  (package \<open>networkfirewall\<close>): its create, read, update and delete
  operations, the status probe and the three waits, and the differ of the
  \<open>subnet_mapping\<close> set.

  Go pointers are options (\<open>nil\<close> is \<open>None\<close>), a pair \<open>(value, err)\<close> in which
  only one side is used is a sum (\<open>Inl\<close> the error), and the remote service is
  a state \<open>'r\<close> threaded through every call. Every function that talks to the
  service returns, besides its result and the new remote state, the list of
  the calls it issued, in the order it issued them.
\<close>

subsection \<open>Errors\<close>

text \<open>
  \<open>AwsError code message\<close> is an \<open>awserr.Error\<close>; \<open>NotFoundError\<close>,
  \<open>UnexpectedStateError\<close> and \<open>TimeoutError\<close> are the error types of the
  plugin SDK's \<open>retry\<close> package; \<open>EmptyResultError\<close> is what
  \<open>tfresource.NewEmptyResultError\<close> returns; \<open>OtherError\<close> is any other error
  (a network failure, a cancelled context).
\<close>

datatype error =
    AwsError string string
  | NotFoundError "error option"
  | EmptyResultError
  | UnexpectedStateError string
  | TimeoutError string
  | OtherError string

definition ErrCodeResourceNotFoundException :: string where
  "ErrCodeResourceNotFoundException = ''ResourceNotFoundException''"

definition ErrCodeInvalidRequestException :: string where
  "ErrCodeInvalidRequestException = ''InvalidRequestException''"

text \<open>
  \<open>errors.As(err, &awsErr)\<close>: the first \<open>awserr.Error\<close> in the chain of
  wrapped errors (\<open>retry.NotFoundError\<close> unwraps to its \<open>LastError\<close>).
\<close>

fun asAwsErr :: "error \<Rightarrow> (string \<times> string) option" where
  "asAwsErr (AwsError code message) = Some (code, message)"
| "asAwsErr (NotFoundError (Some e)) = asAwsErr e"
| "asAwsErr _ = None"

text \<open>\<open>strings.Contains\<close>: the second string occurs contiguously in the first.\<close>

fun hasPrefix :: "string \<Rightarrow> string \<Rightarrow> bool" where
  "hasPrefix s [] = True"
| "hasPrefix [] (c # cs) = False"
| "hasPrefix (x # xs) (c # cs) = (x = c \<and> hasPrefix xs cs)"

fun Contains :: "string \<Rightarrow> string \<Rightarrow> bool" where
  "Contains [] substr = (substr = [])"
| "Contains (x # xs) substr = (hasPrefix (x # xs) substr \<or> Contains xs substr)"

text \<open>
  \<open>tfawserr.ErrCodeEquals\<close> and \<open>tfawserr.ErrMessageContains\<close>, on a Go
  \<open>error\<close> value that may be \<open>nil\<close>.
\<close>

definition ErrCodeEquals :: "error option \<Rightarrow> string \<Rightarrow> bool" where
  "ErrCodeEquals err code =
     (case err of
        None \<Rightarrow> False
      | Some e \<Rightarrow> (case asAwsErr e of None \<Rightarrow> False | Some (c, m) \<Rightarrow> c = code))"

definition ErrMessageContains :: "error option \<Rightarrow> string \<Rightarrow> string \<Rightarrow> bool" where
  "ErrMessageContains err code message =
     (case err of
        None \<Rightarrow> False
      | Some e \<Rightarrow>
          (case asAwsErr e of
             None \<Rightarrow> False
           | Some (c, m) \<Rightarrow> c = code \<and> Contains m message))"

text \<open>
  Modelled from the spec: \<open>tfresource.NotFound\<close> is declared outside the files
  at hand. It classifies an error as "the referenced object does not exist
  remotely": a \<open>retry.NotFoundError\<close>, or the empty-result error that presents
  itself as one.
\<close>

fun NotFound :: "error option \<Rightarrow> bool" where
  "NotFound (Some (NotFoundError lastError)) = True"
| "NotFound (Some EmptyResultError) = True"
| "NotFound _ = False"

subsection \<open>Remote API shapes\<close>

definition StringValue :: "string option \<Rightarrow> string" where
  "StringValue p = (case p of None \<Rightarrow> [] | Some s \<Rightarrow> s)"

definition BoolValue :: "bool option \<Rightarrow> bool" where
  "BoolValue p = (case p of None \<Rightarrow> False | Some b \<Rightarrow> b)"

record SubnetMapping =
  SubnetId :: "string option"
  IPAddressType :: "string option"

record EncryptionConfiguration =
  KeyId :: "string option"
  Type :: "string option"

record Firewall =
  FirewallArn :: "string option"
  DeleteProtection :: "bool option"
  Description :: "string option"
  EncryptionConfig :: "EncryptionConfiguration option"
  FirewallName :: "string option"
  FirewallPolicyArn :: "string option"
  FirewallPolicyChangeProtection :: "bool option"
  SubnetChangeProtection :: "bool option"
  SubnetMappings :: "SubnetMapping list"
  VpcId :: "string option"

text \<open>
  \<open>FirewallStatus\<close>: the status value and the sync states, one per
  availability zone, each with an optional attachment (endpoint id, subnet id).
\<close>

record FirewallStatus =
  Status :: "string option"
  SyncStates :: "(string \<times> (string option \<times> string option) option) list option"

record DescribeFirewallOutput =
  FirewallOf :: "Firewall option"
  FirewallStatusOf :: "FirewallStatus option"
  UpdateToken :: "string option"

definition FirewallStatusValueProvisioning :: string where
  "FirewallStatusValueProvisioning = ''PROVISIONING''"

definition FirewallStatusValueReady :: string where
  "FirewallStatusValueReady = ''READY''"

definition FirewallStatusValueDeleting :: string where
  "FirewallStatusValueDeleting = ''DELETING''"

subsection \<open>The \<open>subnet_mapping\<close> set\<close>

text \<open>
  An element of the \<open>subnet_mapping\<close> set: the schema gives every element both
  attributes as strings (an attribute left out reads as the empty string), so
  the type assertions of the source on them always succeed.
\<close>

record tfSubnetMapping =
  subnet_id :: string
  ip_address_type :: string

text \<open>
  The plugin SDK's \<open>schema.Set\<close> keeps its elements in a map keyed by the
  decimal text of each element's hash code, and lists them in the order of
  those keys as strings. Here the map is an association list keyed by the
  hash code itself; \<open>List\<close> sorts by the decimal text (\<open>strconv.Itoa\<close>).
\<close>

type_synonym Set = "(int \<times> tfSubnetMapping) list"

function Itoa :: "int \<Rightarrow> string" where
  "Itoa n = (if n < 0 then CHR ''-'' # Itoa (- n)
             else if n < 10 then [char_of (48 + n)]
             else Itoa (n div 10) @ [char_of (48 + n mod 10)])"
  by pat_completeness auto
termination
  by (relation "measure (\<lambda>n. if n < 0 then Suc (nat (- n)) else nat n)") auto

declare Itoa.simps [simp del]

text \<open>\<open>Set.hash\<close>: the set function's code, made non-negative.\<close>

definition hash :: "(tfSubnetMapping \<Rightarrow> int) \<Rightarrow> tfSubnetMapping \<Rightarrow> int" where
  "hash F item = (let code = F item in if code < 0 then - code else code)"

definition Add :: "(tfSubnetMapping \<Rightarrow> int) \<Rightarrow> Set \<Rightarrow> tfSubnetMapping \<Rightarrow> Set" where
  "Add F s item =
     (let code = hash F item in
      if code \<in> fst ` set s then s else s @ [(code, item)])"

definition NewSet :: "(tfSubnetMapping \<Rightarrow> int) \<Rightarrow> tfSubnetMapping list \<Rightarrow> Set" where
  "NewSet F items = foldl (Add F) [] items"

definition Len :: "Set \<Rightarrow> nat" where
  "Len s = length s"

definition List :: "Set \<Rightarrow> tfSubnetMapping list" where
  "List s = map snd (sort_key (\<lambda>(code, item). Itoa code) s)"

definition Difference :: "Set \<Rightarrow> Set \<Rightarrow> Set" where
  "Difference s other = filter (\<lambda>(k, v). k \<notin> fst ` set other) s"

text \<open>\<open>Set.Equal\<close>: the two sets hold the same keys.\<close>

definition Equal :: "Set \<Rightarrow> Set \<Rightarrow> bool" where
  "Equal s other = (fst ` set s = fst ` set other)"

subsection \<open>Expanders and the differ\<close>

fun expandSubnetMappings :: "tfSubnetMapping list \<Rightarrow> SubnetMapping list" where
  "expandSubnetMappings [] = []"
| "expandSubnetMappings (tfMap # l) =
     (let mapping = \<lparr>SubnetId = Some (subnet_id tfMap), IPAddressType = None\<rparr>;
          mapping' = (if ip_address_type tfMap \<noteq> []
                      then mapping\<lparr>IPAddressType := Some (ip_address_type tfMap)\<rparr>
                      else mapping)
      in mapping' # expandSubnetMappings l)"

fun expandSubnetMappingIDs :: "tfSubnetMapping list \<Rightarrow> string list" where
  "expandSubnetMappingIDs [] = []"
| "expandSubnetMappingIDs (tfMap # l) =
     (if subnet_id tfMap \<noteq> [] then subnet_id tfMap # expandSubnetMappingIDs l
      else expandSubnetMappingIDs l)"

fun flattenSubnetMappings :: "SubnetMapping list \<Rightarrow> tfSubnetMapping list" where
  "flattenSubnetMappings [] = []"
| "flattenSubnetMappings (s # sm) =
     \<lparr>subnet_id = StringValue (SubnetId s), ip_address_type = StringValue (IPAddressType s)\<rparr>
       # flattenSubnetMappings sm"

text \<open>
  \<open>subnetMappingsHash\<close>: the fingerprint writes into its buffer the subnet id
  and the address type, each followed by a dash (\<open>subnetMappingsHashBuf\<close> is
  the content of the buffer), and returns the hash code of that text.
  \<open>create.StringHashcode\<close> is declared outside the files at hand and is a
  parameter here.
\<close>

definition subnetMappingsHashBuf :: "tfSubnetMapping \<Rightarrow> string" where
  "subnetMappingsHashBuf tfMap = (subnet_id tfMap @ ''-'') @ (ip_address_type tfMap @ ''-'')"

definition subnetMappingsHash :: "(string \<Rightarrow> int) \<Rightarrow> tfSubnetMapping \<Rightarrow> int" where
  "subnetMappingsHash StringHashcode tfMap = StringHashcode (subnetMappingsHashBuf tfMap)"

definition subnetMappingsDiff ::
  "(string \<Rightarrow> int) \<Rightarrow> Set \<Rightarrow> Set \<Rightarrow> string list \<times> SubnetMapping list" where
  "subnetMappingsDiff StringHashcode old new =
     (if Len old = 0 then ([], expandSubnetMappings (List new))
      else if Len new = 0 then (expandSubnetMappingIDs (List old), [])
      else
        let oldHashedSet = NewSet (subnetMappingsHash StringHashcode) (List old);
            newHashedSet = NewSet (subnetMappingsHash StringHashcode) (List new);
            toRemove = Difference oldHashedSet newHashedSet;
            toAdd = Difference new old;
            subnetsToRemove = expandSubnetMappingIDs (List toRemove);
            subnetsToAdd = expandSubnetMappings (List toAdd)
        in (subnetsToRemove, subnetsToAdd))"

subsection \<open>The resource data\<close>

record tfEncryptionConfiguration =
  key_id :: string
  enc_type :: string

record tfAttachment =
  endpoint_id :: string
  attachment_subnet_id :: string

record tfSyncState =
  availability_zone :: string
  attachment :: "tfAttachment list"

record tfFirewallStatus =
  sync_states :: "tfSyncState list"

record attrs =
  arn :: string
  delete_protection :: bool
  description :: string
  encryption_configuration :: "tfEncryptionConfiguration list"
  firewall_policy_arn :: string
  firewall_policy_change_protection :: bool
  firewall_status :: "tfFirewallStatus list"
  name :: string
  subnet_change_protection :: bool
  subnet_mapping :: Set
  update_token :: string
  vpc_id :: string

text \<open>
  \<open>schema.ResourceData\<close>: the identifier, the new-resource mark, the prior
  state (the "old" side of \<open>GetChange\<close>) and the current values (what \<open>Get\<close>
  returns and \<open>Set\<close> writes), and the three timeouts. Wall-clock time is not
  modelled: a timeout is the number of refreshes that complete before the
  deadline of a wait; the initial delay of a wait is in seconds.
\<close>

record ResourceData =
  IdOf :: string
  IsNewResource :: bool
  prior :: attrs
  cur :: attrs
  TimeoutCreate :: nat
  TimeoutUpdate :: nat
  TimeoutDelete :: nat

definition SetId :: "ResourceData \<Rightarrow> string \<Rightarrow> ResourceData" where
  "SetId d v = d\<lparr>IdOf := v\<rparr>"

text \<open>
  \<open>HasChange\<close> compares the old and the new value of an attribute; for a set
  it asks \<open>Set.Equal\<close>.
\<close>

definition HasChange :: "ResourceData \<Rightarrow> (attrs \<Rightarrow> 'a) \<Rightarrow> bool" where
  "HasChange d key = (key (prior d) \<noteq> key (cur d))"

definition HasChangeSet :: "ResourceData \<Rightarrow> (attrs \<Rightarrow> Set) \<Rightarrow> bool" where
  "HasChangeSet d key = (\<not> Equal (key (prior d)) (key (cur d)))"

definition GetChange :: "ResourceData \<Rightarrow> (attrs \<Rightarrow> 'a) \<Rightarrow> 'a \<times> 'a" where
  "GetChange d key = (key (prior d), key (cur d))"

text \<open>
  Functions of the provider that are declared outside the files at hand, taken
  as parameters: the string hash code, the set function of the
  \<open>subnet_mapping\<close> schema, and the expander and flattener of the encryption
  configuration.
\<close>

record deps =
  StringHashcode :: "string \<Rightarrow> int"
  subnetMappingSetFunc :: "tfSubnetMapping \<Rightarrow> int"
  expandEncryptionConfiguration :: "tfEncryptionConfiguration list \<Rightarrow> EncryptionConfiguration option"
  flattenEncryptionConfiguration :: "EncryptionConfiguration option \<Rightarrow> tfEncryptionConfiguration list"

subsection \<open>The remote client and the calls it receives\<close>

record CreateFirewallInput =
  InFirewallName :: "string option"
  InFirewallPolicyArn :: "string option"
  InSubnetMappings :: "SubnetMapping list"
  InVpcId :: "string option"
  InDeleteProtection :: "bool option"
  InDescription :: "string option"
  InEncryptionConfiguration :: "EncryptionConfiguration option"
  InFirewallPolicyChangeProtection :: "bool option"
  InSubnetChangeProtection :: "bool option"

text \<open>
  The eight calls that carry an update token: each takes the firewall ARN, the
  value to apply and the token.
\<close>

datatype mutation =
    UpdateFirewallDeleteProtection string bool string
  | UpdateFirewallDescription string string string
  | UpdateFirewallEncryptionConfiguration string "EncryptionConfiguration option" string
  | UpdateFirewallPolicyChangeProtection string bool string
  | AssociateFirewallPolicy string string string
  | UpdateSubnetChangeProtection string bool string
  | AssociateSubnets string "SubnetMapping list" string
  | DisassociateSubnets string "string list" string

text \<open>
  The client: \<open>CreateFirewall\<close> answers with the ARN of the created firewall,
  a token-carrying call with the \<open>UpdateToken\<close> of its output.
\<close>

record 'r Conn =
  CreateFirewallWithContext :: "CreateFirewallInput \<Rightarrow> 'r \<Rightarrow> (error + string option) \<times> 'r"
  DeleteFirewallWithContext :: "string \<Rightarrow> 'r \<Rightarrow> error option \<times> 'r"
  DescribeFirewallWithContext :: "string \<Rightarrow> 'r \<Rightarrow> (error + DescribeFirewallOutput option) \<times> 'r"
  MutateWithContext :: "mutation \<Rightarrow> 'r \<Rightarrow> (error + string option) \<times> 'r"

text \<open>One entry per call issued, with its response; \<open>Slept\<close> is a wait's initial delay.\<close>

datatype event =
    Created CreateFirewallInput "error + string option"
  | Deleted string "error option"
  | Described string "error + DescribeFirewallOutput option"
  | Mutated mutation "error + string option"
  | Slept nat

text \<open>\<open>sdkdiag.AppendErrorf\<close> on empty diagnostics: the format, the identifier, the cause.\<close>

datatype diagnostic = Errorf string string error

type_synonym diagnostics = "diagnostic list"

subsection \<open>Finding the firewall and probing its status\<close>

text \<open>
  \<open>FindFirewallByARN\<close> returns an output only when its \<open>Firewall\<close> and its
  \<open>FirewallStatus\<close> are set; the result carries both next to the output, so
  that the callers read them without a nil check, as the source does.
\<close>

definition FindFirewallByARN ::
  "'r Conn \<Rightarrow> string \<Rightarrow> 'r \<Rightarrow>
     (error + DescribeFirewallOutput \<times> Firewall \<times> FirewallStatus) \<times> event list \<times> 'r" where
  "FindFirewallByARN conn arnv r =
     (case DescribeFirewallWithContext conn arnv r of
        (res, r') \<Rightarrow>
          (case res of
             Inl err \<Rightarrow>
               if ErrCodeEquals (Some err) ErrCodeResourceNotFoundException
               then (Inl (NotFoundError (Some err)), [Described arnv res], r')
               else (Inl err, [Described arnv res], r')
           | Inr None \<Rightarrow> (Inl EmptyResultError, [Described arnv res], r')
           | Inr (Some output) \<Rightarrow>
               (case (FirewallOf output, FirewallStatusOf output) of
                  (Some firewall, Some status) \<Rightarrow>
                    (Inr (output, firewall, status), [Described arnv res], r')
                | _ \<Rightarrow> (Inl EmptyResultError, [Described arnv res], r'))))"

definition statusFirewall ::
  "'r Conn \<Rightarrow> string \<Rightarrow> 'r \<Rightarrow>
     (DescribeFirewallOutput option \<times> string \<times> error option) \<times> event list \<times> 'r" where
  "statusFirewall conn arnv r =
     (case FindFirewallByARN conn arnv r of
        (Inl err, evs, r') \<Rightarrow>
          if NotFound (Some err) then ((None, [], None), evs, r')
          else ((None, [], Some err), evs, r')
      | (Inr (output, firewall, status), evs, r') \<Rightarrow>
          ((Some output, StringValue (Status status), None), evs, r'))"

subsection \<open>Waiting for a status\<close>

record 'r StateChangeConf =
  Delay :: nat
  Pending :: "string list"
  Target :: "string list"
  Refresh :: "'r \<Rightarrow> (DescribeFirewallOutput option \<times> string \<times> error option) \<times> event list \<times> 'r"
  Timeout :: nat

text \<open>
  \<open>WaitForStateContext\<close> belongs to the plugin SDK. Its refresh loop, with the
  SDK's defaults (twenty tolerated not-found results, one target occurrence):
  a refresh error ends the wait with that error; an absent result ends it
  with success when no target is asked for, and counts as not found
  otherwise; a target status ends it with the result; a pending status goes
  on; any other status ends it with an unexpected-state error and the
  result. The first argument of \<open>refreshLoop\<close> counts the refreshes left
  before the timeout, the second the not-found results so far, the third is
  the last status seen.
\<close>

fun refreshLoop ::
  "nat \<Rightarrow> nat \<Rightarrow> string \<Rightarrow> 'r StateChangeConf \<Rightarrow> 'r \<Rightarrow>
     (DescribeFirewallOutput option \<times> error option) \<times> event list \<times> 'r" where
  "refreshLoop 0 notfoundTick lastState conf r = ((None, Some (TimeoutError lastState)), [], r)"
| "refreshLoop (Suc n) notfoundTick lastState conf r =
     (case Refresh conf r of
        ((res, currentState, err), evs, r') \<Rightarrow>
          (case err of
             Some e \<Rightarrow> ((res, Some e), evs, r')
           | None \<Rightarrow>
               (case res of
                  None \<Rightarrow>
                    if Target conf = [] then ((None, None), evs, r')
                    else if Suc notfoundTick > 20
                    then ((None, Some (NotFoundError None)), evs, r')
                    else (case refreshLoop n (Suc notfoundTick) currentState conf r' of
                            (out, evs', r'') \<Rightarrow> (out, evs @ evs', r''))
                | Some v \<Rightarrow>
                    if currentState \<in> set (Target conf) then ((Some v, None), evs, r')
                    else if currentState \<in> set (Pending conf) \<or> Pending conf = []
                    then (case refreshLoop n 0 currentState conf r' of
                            (out, evs', r'') \<Rightarrow> (out, evs @ evs', r''))
                    else ((Some v, Some (UnexpectedStateError currentState)), evs, r'))))"

definition WaitForStateContext ::
  "'r StateChangeConf \<Rightarrow> 'r \<Rightarrow>
     (DescribeFirewallOutput option \<times> error option) \<times> event list \<times> 'r" where
  "WaitForStateContext conf r =
     (case refreshLoop (Timeout conf) 0 [] conf r of
        (out, evs, r') \<Rightarrow> (out, Slept (Delay conf) # evs, r'))"

definition waitFirewallCreated ::
  "'r Conn \<Rightarrow> nat \<Rightarrow> string \<Rightarrow> 'r \<Rightarrow> (Firewall option \<times> error option) \<times> event list \<times> 'r" where
  "waitFirewallCreated conn timeout arnv r =
     (let stateConf = \<lparr>Delay = 0,
                       Pending = [FirewallStatusValueProvisioning],
                       Target = [FirewallStatusValueReady],
                       Refresh = statusFirewall conn arnv,
                       Timeout = timeout\<rparr>
      in case WaitForStateContext stateConf r of
           ((outputRaw, err), evs, r') \<Rightarrow>
             (case outputRaw of
                Some output \<Rightarrow> ((FirewallOf output, err), evs, r')
              | None \<Rightarrow> ((None, err), evs, r')))"

definition waitFirewallUpdated ::
  "'r Conn \<Rightarrow> nat \<Rightarrow> string \<Rightarrow> 'r \<Rightarrow> (string \<times> error option) \<times> event list \<times> 'r" where
  "waitFirewallUpdated conn timeout arnv r =
     (let stateConf = \<lparr>Delay = 30,
                       Pending = [FirewallStatusValueProvisioning],
                       Target = [FirewallStatusValueReady],
                       Refresh = statusFirewall conn arnv,
                       Timeout = timeout\<rparr>
      in case WaitForStateContext stateConf r of
           ((outputRaw, err), evs, r') \<Rightarrow>
             (case outputRaw of
                Some output \<Rightarrow> ((StringValue (UpdateToken output), err), evs, r')
              | None \<Rightarrow> (([], err), evs, r')))"

definition waitFirewallDeleted ::
  "'r Conn \<Rightarrow> nat \<Rightarrow> string \<Rightarrow> 'r \<Rightarrow> (Firewall option \<times> error option) \<times> event list \<times> 'r" where
  "waitFirewallDeleted conn timeout arnv r =
     (let stateConf = \<lparr>Delay = 0,
                       Pending = [FirewallStatusValueDeleting],
                       Target = [],
                       Refresh = statusFirewall conn arnv,
                       Timeout = timeout\<rparr>
      in case WaitForStateContext stateConf r of
           ((outputRaw, err), evs, r') \<Rightarrow>
             (case outputRaw of
                Some output \<Rightarrow> ((FirewallOf output, err), evs, r')
              | None \<Rightarrow> ((None, err), evs, r')))"

subsection \<open>Flatteners\<close>

definition flattenSyncStateAttachment :: "(string option \<times> string option) option \<Rightarrow> tfAttachment list" where
  "flattenSyncStateAttachment a =
     (case a of
        None \<Rightarrow> []
      | Some (endpointId, subnetId) \<Rightarrow>
          [\<lparr>endpoint_id = StringValue endpointId, attachment_subnet_id = StringValue subnetId\<rparr>])"

definition flattenSyncStates ::
  "(string \<times> (string option \<times> string option) option) list option \<Rightarrow> tfSyncState list" where
  "flattenSyncStates s =
     (case s of
        None \<Rightarrow> []
      | Some states \<Rightarrow>
          map (\<lambda>(k, v). \<lparr>availability_zone = k, attachment = flattenSyncStateAttachment v\<rparr>) states)"

definition flattenFirewallStatus :: "FirewallStatus option \<Rightarrow> tfFirewallStatus list" where
  "flattenFirewallStatus status =
     (case status of
        None \<Rightarrow> []
      | Some st \<Rightarrow> [\<lparr>sync_states = flattenSyncStates (SyncStates st)\<rparr>])"

section \<open>The operations of the resource\<close>

subsection \<open>Read\<close>

text \<open>
  \<open>d.Set\<close> stores a value that conforms to the schema without error, and the
  flatteners produce such values; the propagation of tags is left out.
\<close>

definition resourceFirewallRead ::
  "deps \<Rightarrow> 'r Conn \<Rightarrow> ResourceData \<Rightarrow> 'r \<Rightarrow> (diagnostics \<times> ResourceData) \<times> event list \<times> 'r" where
  "resourceFirewallRead dp conn d r =
     (case FindFirewallByARN conn (IdOf d) r of
        (Inl err, evs, r') \<Rightarrow>
          if \<not> IsNewResource d \<and> NotFound (Some err) then (([], SetId d []), evs, r')
          else (([Errorf ''reading NetworkFirewall Firewall (%s): %s'' (IdOf d) err], d), evs, r')
      | (Inr (output, firewall, status), evs, r') \<Rightarrow>
          (([], d\<lparr>cur := (cur d)\<lparr>
                   arn := StringValue (FirewallArn firewall),
                   delete_protection := BoolValue (DeleteProtection firewall),
                   description := StringValue (Description firewall),
                   encryption_configuration :=
                     flattenEncryptionConfiguration dp (EncryptionConfig firewall),
                   firewall_policy_arn := StringValue (FirewallPolicyArn firewall),
                   firewall_policy_change_protection :=
                     BoolValue (FirewallPolicyChangeProtection firewall),
                   firewall_status := flattenFirewallStatus (FirewallStatusOf output),
                   name := StringValue (FirewallName firewall),
                   subnet_change_protection := BoolValue (SubnetChangeProtection firewall),
                   subnet_mapping :=
                     NewSet (subnetMappingSetFunc dp) (flattenSubnetMappings (SubnetMappings firewall)),
                   update_token := StringValue (UpdateToken output),
                   vpc_id := StringValue (VpcId firewall)\<rparr>\<rparr>),
           evs, r'))"

subsection \<open>Create\<close>

text \<open>\<open>GetOk\<close> reports a value only when it is not the zero value of its type.\<close>

definition resourceFirewallCreate ::
  "deps \<Rightarrow> 'r Conn \<Rightarrow> ResourceData \<Rightarrow> 'r \<Rightarrow> (diagnostics \<times> ResourceData) \<times> event list \<times> 'r" where
  "resourceFirewallCreate dp conn d r =
     (let input = \<lparr>InFirewallName = Some (name (cur d)),
                   InFirewallPolicyArn = Some (firewall_policy_arn (cur d)),
                   InSubnetMappings = expandSubnetMappings (List (subnet_mapping (cur d))),
                   InVpcId = Some (vpc_id (cur d)),
                   InDeleteProtection =
                     (if delete_protection (cur d) then Some True else None),
                   InDescription =
                     (if description (cur d) \<noteq> [] then Some (description (cur d)) else None),
                   InEncryptionConfiguration =
                     (if encryption_configuration (cur d) \<noteq> []
                      then expandEncryptionConfiguration dp (encryption_configuration (cur d))
                      else None),
                   InFirewallPolicyChangeProtection =
                     (if firewall_policy_change_protection (cur d) then Some True else None),
                   InSubnetChangeProtection =
                     (if subnet_change_protection (cur d) then Some True else None)\<rparr>
      in case CreateFirewallWithContext conn input r of
           (Inl err, r1) \<Rightarrow>
             (([Errorf ''creating NetworkFirewall Firewall (%s): %s'' (name (cur d)) err], d),
              [Created input (Inl err)], r1)
         | (Inr firewallArn, r1) \<Rightarrow>
             (let d1 = SetId d (StringValue firewallArn) in
              case waitFirewallCreated conn (TimeoutCreate d1) (IdOf d1) r1 of
                ((fw, Some err), evs, r2) \<Rightarrow>
                  (([Errorf ''waiting for NetworkFirewall Firewall (%s) create: %s'' (IdOf d1) err], d1),
                   Created input (Inr firewallArn) # evs, r2)
              | ((fw, None), evs, r2) \<Rightarrow>
                  (case resourceFirewallRead dp conn d1 r2 of
                     (res, evs', r3) \<Rightarrow> (res, Created input (Inr firewallArn) # evs @ evs', r3))))"

subsection \<open>Update\<close>

text \<open>
  The update runs its blocks in the order of the source. A block receives the
  update token held so far; it either returns the token to hold next, or the
  diagnostics with which the update returns at once.
\<close>

type_synonym 'r step = "string \<Rightarrow> 'r \<Rightarrow> (diagnostics + string) \<times> event list \<times> 'r"

fun runSteps :: "'r step list \<Rightarrow> 'r step" where
  "runSteps [] updateToken r = (Inr updateToken, [], r)"
| "runSteps (block # blocks) updateToken r =
     (case block updateToken r of
        (Inl diags, evs, r') \<Rightarrow> (Inl diags, evs, r')
      | (Inr updateToken', evs, r') \<Rightarrow>
          (case runSteps blocks updateToken' r' of
             (res, evs', r'') \<Rightarrow> (res, evs @ evs', r'')))"

text \<open>
  The six blocks of the scalar attributes have one shape: when the attribute
  changed, send the call with the token held; on an error return it; otherwise
  hold the token of the output.
\<close>

definition scalarUpdate ::
  "'r Conn \<Rightarrow> bool \<Rightarrow> (string \<Rightarrow> mutation) \<Rightarrow> (error \<Rightarrow> diagnostic) \<Rightarrow> 'r step" where
  "scalarUpdate conn changed input errorf updateToken r =
     (if changed then
        (case MutateWithContext conn (input updateToken) r of
           (Inl err, r') \<Rightarrow> (Inl [errorf err], [Mutated (input updateToken) (Inl err)], r')
         | (Inr output, r') \<Rightarrow>
             (Inr (StringValue output), [Mutated (input updateToken) (Inr output)], r'))
      else (Inr updateToken, [], r))"

definition associateSubnets :: "'r Conn \<Rightarrow> ResourceData \<Rightarrow> SubnetMapping list \<Rightarrow> 'r step" where
  "associateSubnets conn d subnetsToAdd updateToken r =
     (if length subnetsToAdd > 0 then
        (let input = AssociateSubnets (IdOf d) subnetsToAdd updateToken in
         case MutateWithContext conn input r of
           (Inl err, r') \<Rightarrow>
             (Inl [Errorf ''associating NetworkFirewall Firewall (%s) subnets: %s'' (IdOf d) err],
              [Mutated input (Inl err)], r')
         | (Inr output, r') \<Rightarrow>
             (case waitFirewallUpdated conn (TimeoutUpdate d) (IdOf d) r' of
                ((updateToken', Some err), evs, r'') \<Rightarrow>
                  (Inl [Errorf ''waiting for NetworkFirewall Firewall (%s) update: %s'' (IdOf d) err],
                   Mutated input (Inr output) # evs, r'')
              | ((updateToken', None), evs, r'') \<Rightarrow>
                  (Inr updateToken', Mutated input (Inr output) # evs, r'')))
      else (Inr updateToken, [], r))"

definition disassociateSubnets :: "'r Conn \<Rightarrow> ResourceData \<Rightarrow> string list \<Rightarrow> 'r step" where
  "disassociateSubnets conn d subnetsToRemove updateToken r =
     (if length subnetsToRemove > 0 then
        (let input = DisassociateSubnets (IdOf d) subnetsToRemove updateToken in
         case MutateWithContext conn input r of
           (Inr output, r') \<Rightarrow>
             (case waitFirewallUpdated conn (TimeoutUpdate d) (IdOf d) r' of
                ((ignored, Some err), evs, r'') \<Rightarrow>
                  (Inl [Errorf ''waiting for NetworkFirewall Firewall (%s) update: %s'' (IdOf d) err],
                   Mutated input (Inr output) # evs, r'')
              | ((ignored, None), evs, r'') \<Rightarrow>
                  (Inr updateToken, Mutated input (Inr output) # evs, r''))
         | (Inl err, r') \<Rightarrow>
             if \<not> ErrMessageContains (Some err) ErrCodeInvalidRequestException ''inaccessible''
             then (Inl [Errorf ''disassociating NetworkFirewall Firewall (%s) subnets: %s'' (IdOf d) err],
                   [Mutated input (Inl err)], r')
             else (Inr updateToken, [Mutated input (Inl err)], r'))
      else (Inr updateToken, [], r))"

definition updateSubnetMapping :: "deps \<Rightarrow> 'r Conn \<Rightarrow> ResourceData \<Rightarrow> 'r step" where
  "updateSubnetMapping dp conn d updateToken r =
     (if HasChangeSet d subnet_mapping then
        (case GetChange d subnet_mapping of
           (old, new) \<Rightarrow>
             (case subnetMappingsDiff (StringHashcode dp) old new of
                (subnetsToRemove, subnetsToAdd) \<Rightarrow>
                  runSteps [associateSubnets conn d subnetsToAdd,
                            disassociateSubnets conn d subnetsToRemove] updateToken r))
      else (Inr updateToken, [], r))"

definition updateSteps :: "deps \<Rightarrow> 'r Conn \<Rightarrow> ResourceData \<Rightarrow> 'r step list" where
  "updateSteps dp conn d =
     [scalarUpdate conn (HasChange d delete_protection)
        (UpdateFirewallDeleteProtection (IdOf d) (delete_protection (cur d)))
        (Errorf ''updating NetworkFirewall Firewall (%s) delete protection: %s'' (IdOf d)),
      scalarUpdate conn (HasChange d description)
        (UpdateFirewallDescription (IdOf d) (description (cur d)))
        (Errorf ''updating NetworkFirewall Firewall (%s) description: %s'' (IdOf d)),
      scalarUpdate conn (HasChange d encryption_configuration)
        (UpdateFirewallEncryptionConfiguration (IdOf d)
           (expandEncryptionConfiguration dp (encryption_configuration (cur d))))
        (Errorf ''updating NetworkFirewall Firewall (%s) encryption configuration: %s'' (IdOf d)),
      scalarUpdate conn (HasChange d firewall_policy_change_protection)
        (UpdateFirewallPolicyChangeProtection (IdOf d) (firewall_policy_change_protection (cur d)))
        (Errorf ''updating NetworkFirewall Firewall (%s) firewall policy change protection: %s'' (IdOf d)),
      scalarUpdate conn (HasChange d firewall_policy_arn)
        (AssociateFirewallPolicy (IdOf d) (firewall_policy_arn (cur d)))
        (Errorf ''updating NetworkFirewall Firewall (%s) firewall policy ARN: %s'' (IdOf d)),
      scalarUpdate conn (HasChange d subnet_change_protection)
        (UpdateSubnetChangeProtection (IdOf d) (subnet_change_protection (cur d)))
        (Errorf ''updating NetworkFirewall Firewall (%s) subnet change protection: %s'' (IdOf d)),
      updateSubnetMapping dp conn d]"

definition resourceFirewallUpdate ::
  "deps \<Rightarrow> 'r Conn \<Rightarrow> ResourceData \<Rightarrow> 'r \<Rightarrow> (diagnostics \<times> ResourceData) \<times> event list \<times> 'r" where
  "resourceFirewallUpdate dp conn d r =
     (let updateToken = update_token (cur d) in
      case runSteps (updateSteps dp conn d) updateToken r of
        (Inl diags, evs, r') \<Rightarrow> ((diags, d), evs, r')
      | (Inr held, evs, r') \<Rightarrow>
          (case resourceFirewallRead dp conn d r' of
             (res, evs', r'') \<Rightarrow> (res, evs @ evs', r'')))"

subsection \<open>Delete\<close>

definition resourceFirewallDelete ::
  "'r Conn \<Rightarrow> ResourceData \<Rightarrow> 'r \<Rightarrow> diagnostics \<times> event list \<times> 'r" where
  "resourceFirewallDelete conn d r =
     (case DeleteFirewallWithContext conn (IdOf d) r of
        (err, r') \<Rightarrow>
          if ErrCodeEquals err ErrCodeResourceNotFoundException
          then ([], [Deleted (IdOf d) err], r')
          else
            (case err of
               Some e \<Rightarrow>
                 ([Errorf ''deleting NetworkFirewall Firewall (%s): %s'' (IdOf d) e],
                  [Deleted (IdOf d) err], r')
             | None \<Rightarrow>
                 (case waitFirewallDeleted conn (TimeoutDelete d) (IdOf d) r' of
                    ((fw, Some e), evs, r'') \<Rightarrow>
                      ([Errorf ''waiting for NetworkFirewall Firewall (%s) delete: %s'' (IdOf d) e],
                       Deleted (IdOf d) err # evs, r'')
                  | ((fw, None), evs, r'') \<Rightarrow> ([], Deleted (IdOf d) err # evs, r''))))"

section \<open>Traces of calls\<close>

text \<open>
  The properties of an operation are stated on the list of calls it issued.
  \<open>callsOf\<close> selects that list from the result of an operation.
\<close>

definition callsOf :: "'a \<times> event list \<times> 'r \<Rightarrow> event list" where
  "callsOf x = fst (snd x)"

text \<open>The update token a call carries, and the place of a call in the order of the update.\<close>

fun TokenOf :: "mutation \<Rightarrow> string" where
  "TokenOf (UpdateFirewallDeleteProtection a v t) = t"
| "TokenOf (UpdateFirewallDescription a v t) = t"
| "TokenOf (UpdateFirewallEncryptionConfiguration a v t) = t"
| "TokenOf (UpdateFirewallPolicyChangeProtection a v t) = t"
| "TokenOf (AssociateFirewallPolicy a v t) = t"
| "TokenOf (UpdateSubnetChangeProtection a v t) = t"
| "TokenOf (AssociateSubnets a v t) = t"
| "TokenOf (DisassociateSubnets a v t) = t"

fun rank :: "mutation \<Rightarrow> nat" where
  "rank (UpdateFirewallDeleteProtection a v t) = 0"
| "rank (UpdateFirewallDescription a v t) = 1"
| "rank (UpdateFirewallEncryptionConfiguration a v t) = 2"
| "rank (UpdateFirewallPolicyChangeProtection a v t) = 3"
| "rank (AssociateFirewallPolicy a v t) = 4"
| "rank (UpdateSubnetChangeProtection a v t) = 5"
| "rank (AssociateSubnets a v t) = 6"
| "rank (DisassociateSubnets a v t) = 7"

fun mutationsOf :: "event list \<Rightarrow> mutation list" where
  "mutationsOf [] = []"
| "mutationsOf (Mutated m res # evs) = m # mutationsOf evs"
| "mutationsOf (ev # evs) = mutationsOf evs"

text \<open>A probe of the firewall with the given ARN.\<close>

fun isProbe :: "string \<Rightarrow> event \<Rightarrow> bool" where
  "isProbe a (Described a' res) = (a' = a)"
| "isProbe a ev = False"

text \<open>
  The status a probe returned: that of the output when the read returned a
  firewall with its status, none otherwise (no firewall was found, or the
  read failed).
\<close>

fun probedStatus :: "event \<Rightarrow> string option" where
  "probedStatus (Described a (Inr (Some output))) =
     (case (FirewallOf output, FirewallStatusOf output) of
        (Some firewall, Some status) \<Rightarrow> Some (StringValue (Status status))
      | _ \<Rightarrow> None)"
| "probedStatus ev = None"

subsection \<open>The token discipline\<close>

text \<open>
  What the update holds as its token: either a token it may send, or nothing
  usable, because the token it held went out with a call that returned no
  token for the next call. A scalar call that succeeds yields the token of
  its output; a read of the firewall yields the token it read; the two subnet
  calls and every failed call yield none.
\<close>

datatype held = Holding string | Spent

fun obtainedToken :: "event \<Rightarrow> string option" where
  "obtainedToken (Mutated (AssociateSubnets a v t) res) = None"
| "obtainedToken (Mutated (DisassociateSubnets a v t) res) = None"
| "obtainedToken (Mutated m (Inr out)) = Some (StringValue out)"
| "obtainedToken (Described a (Inr (Some output))) = Some (StringValue (UpdateToken output))"
| "obtainedToken ev = None"

fun sentToken :: "event \<Rightarrow> string option" where
  "sentToken (Mutated m res) = Some (TokenOf m)"
| "sentToken ev = None"

definition heldAfter :: "held \<Rightarrow> event \<Rightarrow> held" where
  "heldAfter h ev =
     (case obtainedToken ev of
        Some t \<Rightarrow> Holding t
      | None \<Rightarrow> (case sentToken ev of Some t \<Rightarrow> Spent | None \<Rightarrow> h))"

text \<open>
  \<open>tokenDiscipline h evs\<close>: every call of \<open>evs\<close> that carries a token carries
  the token held when it is issued, starting from \<open>h\<close>.
\<close>

fun tokenDiscipline :: "held \<Rightarrow> event list \<Rightarrow> bool" where
  "tokenDiscipline h [] = True"
| "tokenDiscipline h (ev # evs) =
     ((case sentToken ev of Some t \<Rightarrow> h = Holding t | None \<Rightarrow> True)
      \<and> tokenDiscipline (heldAfter h ev) evs)"

text \<open>
  \<open>freshTokens used evs\<close>: the remote never hands out a token that a call has
  already carried (\<open>used\<close> lists the tokens carried before \<open>evs\<close>).
\<close>

fun freshTokens :: "string list \<Rightarrow> event list \<Rightarrow> bool" where
  "freshTokens used [] = True"
| "freshTokens used (ev # evs) =
     (let used' = (case sentToken ev of Some t \<Rightarrow> t # used | None \<Rightarrow> used) in
      (case obtainedToken ev of Some t \<Rightarrow> t \<notin> set used' | None \<Rightarrow> True)
      \<and> freshTokens used' evs)"

section \<open>The shape of an update pass\<close>

text \<open>
  The calls of an update pass fall into three parts: the calls of the six
  scalar blocks, the calls of the \<open>subnet_mapping\<close> block, and the final read.
  The predicates below describe each part; the lemmas of the next section show
  that the operations produce traces of these shapes.

  \<open>scalarChain lo hi tok evs tok'\<close>: \<open>evs\<close> are successful calls of ranks within
  \<open>lo\<close> and \<open>hi\<close>, in increasing order of rank, the first carrying \<open>tok\<close>, each
  later one the token returned to its predecessor, the last returning \<open>tok'\<close>.
\<close>

fun scalarChain :: "nat \<Rightarrow> nat \<Rightarrow> string \<Rightarrow> event list \<Rightarrow> string \<Rightarrow> bool" where
  "scalarChain lo hi tok [] tok' = (tok = tok')"
| "scalarChain lo hi tok (Mutated m (Inr out) # evs) tok' =
     (lo \<le> rank m \<and> rank m < hi \<and> TokenOf m = tok
      \<and> scalarChain (Suc (rank m)) hi (StringValue out) evs tok')"
| "scalarChain lo hi tok (ev # evs) tok' = False"

type_synonym spec = "bool \<times> (string \<Rightarrow> mutation) \<times> (error \<Rightarrow> diagnostic)"

fun rankedSpecs :: "string \<Rightarrow> nat \<Rightarrow> spec list \<Rightarrow> bool" where
  "rankedSpecs i lo [] = True"
| "rankedSpecs i lo ((ch, input, ef) # specs) =
     ((\<forall>t. rank (input t) = lo \<and> TokenOf (input t) = t) \<and> (\<exists>msg. ef = Errorf msg i)
      \<and> rankedSpecs i (Suc lo) specs)"

definition scalarSteps :: "'r Conn \<Rightarrow> spec list \<Rightarrow> 'r step list" where
  "scalarSteps conn specs = map (\<lambda>(ch, input, ef). scalarUpdate conn ch input ef) specs"

definition scalarSpecs :: "deps \<Rightarrow> ResourceData \<Rightarrow> spec list" where
  "scalarSpecs dp d =
     [(HasChange d delete_protection,
       UpdateFirewallDeleteProtection (IdOf d) (delete_protection (cur d)),
       Errorf ''updating NetworkFirewall Firewall (%s) delete protection: %s'' (IdOf d)),
      (HasChange d description,
       UpdateFirewallDescription (IdOf d) (description (cur d)),
       Errorf ''updating NetworkFirewall Firewall (%s) description: %s'' (IdOf d)),
      (HasChange d encryption_configuration,
       UpdateFirewallEncryptionConfiguration (IdOf d)
         (expandEncryptionConfiguration dp (encryption_configuration (cur d))),
       Errorf ''updating NetworkFirewall Firewall (%s) encryption configuration: %s'' (IdOf d)),
      (HasChange d firewall_policy_change_protection,
       UpdateFirewallPolicyChangeProtection (IdOf d) (firewall_policy_change_protection (cur d)),
       Errorf ''updating NetworkFirewall Firewall (%s) firewall policy change protection: %s'' (IdOf d)),
      (HasChange d firewall_policy_arn,
       AssociateFirewallPolicy (IdOf d) (firewall_policy_arn (cur d)),
       Errorf ''updating NetworkFirewall Firewall (%s) firewall policy ARN: %s'' (IdOf d)),
      (HasChange d subnet_change_protection,
       UpdateSubnetChangeProtection (IdOf d) (subnet_change_protection (cur d)),
       Errorf ''updating NetworkFirewall Firewall (%s) subnet change protection: %s'' (IdOf d))]"

text \<open>
  \<open>waitTrace a W tok\<close>: \<open>W\<close> is the trace of a wait for an update of firewall
  \<open>a\<close>: the delay of thirty seconds, then probes only; when the wait succeeded
  with token \<open>tok\<close>, the last probe read status \<open>READY\<close> and that token, and
  every probe before it returned no status or the status \<open>PROVISIONING\<close>.
\<close>

definition waitTrace :: "string \<Rightarrow> event list \<Rightarrow> string option \<Rightarrow> bool" where
  "waitTrace a W tok \<longleftrightarrow>
     (\<exists>P. W = Slept 30 # P \<and> (\<forall>ev \<in> set P. isProbe a ev)
        \<and> (\<forall>t. tok = Some t \<longrightarrow>
             (\<exists>P0 output st. P = P0 @ [Described a (Inr (Some output))]
                \<and> (\<forall>z \<in> set P0. probedStatus z = None
                       \<or> probedStatus z = Some FirewallStatusValueProvisioning)
                \<and> FirewallStatusOf output = Some st
                \<and> StringValue (Status st) = FirewallStatusValueReady
                \<and> t = StringValue (UpdateToken output))))"

inductive assocPhase ::
  "ResourceData \<Rightarrow> SubnetMapping list \<Rightarrow> string \<Rightarrow> event list \<Rightarrow> (diagnostics + string) \<Rightarrow> bool"
  for d :: ResourceData and add :: "SubnetMapping list" and tok :: string where
    assoc_skip: "add = [] \<Longrightarrow> assocPhase d add tok [] (Inr tok)"
  | assoc_fail: "add \<noteq> [] \<Longrightarrow>
      assocPhase d add tok [Mutated (AssociateSubnets (IdOf d) add tok) (Inl e)]
        (Inl [Errorf ''associating NetworkFirewall Firewall (%s) subnets: %s'' (IdOf d) e])"
  | assoc_wait_fail: "add \<noteq> [] \<Longrightarrow> waitTrace (IdOf d) W None \<Longrightarrow>
      assocPhase d add tok (Mutated (AssociateSubnets (IdOf d) add tok) (Inr out) # W)
        (Inl [Errorf ''waiting for NetworkFirewall Firewall (%s) update: %s'' (IdOf d) e])"
  | assoc_ok: "add \<noteq> [] \<Longrightarrow> waitTrace (IdOf d) W (Some tok') \<Longrightarrow>
      assocPhase d add tok (Mutated (AssociateSubnets (IdOf d) add tok) (Inr out) # W) (Inr tok')"

inductive disPhase ::
  "ResourceData \<Rightarrow> string list \<Rightarrow> string \<Rightarrow> event list \<Rightarrow> (diagnostics + string) \<Rightarrow> bool"
  for d :: ResourceData and rem :: "string list" and tok :: string where
    dis_skip: "rem = [] \<Longrightarrow> disPhase d rem tok [] (Inr tok)"
  | dis_fail: "rem \<noteq> [] \<Longrightarrow>
      \<not> ErrMessageContains (Some e) ErrCodeInvalidRequestException ''inaccessible'' \<Longrightarrow>
      disPhase d rem tok [Mutated (DisassociateSubnets (IdOf d) rem tok) (Inl e)]
        (Inl [Errorf ''disassociating NetworkFirewall Firewall (%s) subnets: %s'' (IdOf d) e])"
  | dis_inaccessible: "rem \<noteq> [] \<Longrightarrow>
      ErrMessageContains (Some e) ErrCodeInvalidRequestException ''inaccessible'' \<Longrightarrow>
      disPhase d rem tok [Mutated (DisassociateSubnets (IdOf d) rem tok) (Inl e)] (Inr tok)"
  | dis_wait_fail: "rem \<noteq> [] \<Longrightarrow> waitTrace (IdOf d) W None \<Longrightarrow>
      disPhase d rem tok (Mutated (DisassociateSubnets (IdOf d) rem tok) (Inr out) # W)
        (Inl [Errorf ''waiting for NetworkFirewall Firewall (%s) update: %s'' (IdOf d) e])"
  | dis_ok: "rem \<noteq> [] \<Longrightarrow> waitTrace (IdOf d) W (Some tok') \<Longrightarrow>
      disPhase d rem tok (Mutated (DisassociateSubnets (IdOf d) rem tok) (Inr out) # W) (Inr tok)"

inductive subnetPhase ::
  "deps \<Rightarrow> ResourceData \<Rightarrow> string \<Rightarrow> event list \<Rightarrow> (diagnostics + string) \<Rightarrow> bool"
  for dp :: deps and d :: ResourceData and tok :: string where
    subnet_unchanged: "\<not> HasChangeSet d subnet_mapping \<Longrightarrow> subnetPhase dp d tok [] (Inr tok)"
  | subnet_assoc_stopped: "HasChangeSet d subnet_mapping \<Longrightarrow>
      subnetMappingsDiff (StringHashcode dp) (subnet_mapping (prior d)) (subnet_mapping (cur d))
        = (rem, add) \<Longrightarrow>
      assocPhase d add tok A (Inl ds) \<Longrightarrow> subnetPhase dp d tok A (Inl ds)"
  | subnet_assoc_done: "HasChangeSet d subnet_mapping \<Longrightarrow>
      subnetMappingsDiff (StringHashcode dp) (subnet_mapping (prior d)) (subnet_mapping (cur d))
        = (rem, add) \<Longrightarrow>
      assocPhase d add tok A (Inr tokA) \<Longrightarrow> disPhase d rem tokA D res \<Longrightarrow>
      subnetPhase dp d tok (A @ D) res"

text \<open>Kinds of calls, used to locate a call in a trace.\<close>

fun isFailed :: "event \<Rightarrow> bool" where
  "isFailed (Mutated m (Inl e)) = True"
| "isFailed ev = False"

fun isSubnetCall :: "event \<Rightarrow> bool" where
  "isSubnetCall (Mutated (AssociateSubnets a v t) x) = True"
| "isSubnetCall (Mutated (DisassociateSubnets a v t) x) = True"
| "isSubnetCall ev = False"

fun isAssocOk :: "event \<Rightarrow> bool" where
  "isAssocOk (Mutated (AssociateSubnets a v t) (Inr out)) = True"
| "isAssocOk ev = False"

section \<open>Sample instances\<close>

text \<open>
  Concrete inputs on which the theorems are exercised: a hash code, the
  parameters of the provider, a remote that answers from a script (one list of
  answers for the calls that change the firewall, one for the reads), and the
  data of a firewall whose plan changes the description, turns the subnet
  change protection off, adds subnet b and removes subnet c.
\<close>

definition polyHashcode :: "string \<Rightarrow> int" where
  "polyHashcode s = foldl (\<lambda>acc c. (acc * 31 + int (of_char c)) mod 65521) 0 s"

definition sampleDeps :: deps where
  "sampleDeps =
     \<lparr>StringHashcode = polyHashcode,
      subnetMappingSetFunc =
        (\<lambda>e. polyHashcode (''ip_address_type:'' @ ip_address_type e @ '';subnet_id:'' @ subnet_id e @ '';'')),
      expandEncryptionConfiguration =
        (\<lambda>l. case l of [] \<Rightarrow> None | x # xs \<Rightarrow> Some \<lparr>KeyId = Some (key_id x), Type = Some (enc_type x)\<rparr>),
      flattenEncryptionConfiguration =
        (\<lambda>c. case c of None \<Rightarrow> []
              | Some x \<Rightarrow> [\<lparr>key_id = StringValue (KeyId x), enc_type = StringValue (Type x)\<rparr>])\<rparr>"

type_synonym script = "(error + string option) list \<times> (error + DescribeFirewallOutput option) list"

definition scriptedConn :: "script Conn" where
  "scriptedConn =
     \<lparr>CreateFirewallWithContext =
        (\<lambda>input (ms, ds). case ms of [] \<Rightarrow> (Inl (OtherError ''no response''), (ms, ds))
                                   | x # ms' \<Rightarrow> (x, (ms', ds))),
      DeleteFirewallWithContext =
        (\<lambda>a (ms, ds). case ms of [] \<Rightarrow> (Some (OtherError ''no response''), (ms, ds))
                               | x # ms' \<Rightarrow> ((case x of Inl e \<Rightarrow> Some e | Inr t \<Rightarrow> None), (ms', ds))),
      DescribeFirewallWithContext =
        (\<lambda>a (ms, ds). case ds of [] \<Rightarrow> (Inl (OtherError ''no response''), (ms, ds))
                               | x # ds' \<Rightarrow> (x, (ms, ds'))),
      MutateWithContext =
        (\<lambda>m (ms, ds). case ms of [] \<Rightarrow> (Inl (OtherError ''no response''), (ms, ds))
                               | x # ms' \<Rightarrow> (x, (ms', ds)))\<rparr>"

definition subnetA :: tfSubnetMapping where
  "subnetA = \<lparr>subnet_id = ''subnet-a'', ip_address_type = ''IPV4''\<rparr>"

definition subnetB :: tfSubnetMapping where
  "subnetB = \<lparr>subnet_id = ''subnet-b'', ip_address_type = ''IPV4''\<rparr>"

definition subnetC :: tfSubnetMapping where
  "subnetC = \<lparr>subnet_id = ''subnet-c'', ip_address_type = ''IPV4''\<rparr>"

definition sampleState :: attrs where
  "sampleState =
     \<lparr>arn = ''arn:fw'', delete_protection = False, description = ''old'',
      encryption_configuration = [], firewall_policy_arn = ''arn:policy'',
      firewall_policy_change_protection = False, firewall_status = [],
      name = ''fw'', subnet_change_protection = True,
      subnet_mapping = NewSet (subnetMappingSetFunc sampleDeps) [subnetA, subnetC],
      update_token = ''t0'', vpc_id = ''vpc-1''\<rparr>"

definition samplePlan :: attrs where
  "samplePlan = sampleState\<lparr>description := ''new'', subnet_change_protection := False,
     subnet_mapping := NewSet (subnetMappingSetFunc sampleDeps) [subnetA, subnetB]\<rparr>"

definition sampleData :: ResourceData where
  "sampleData = \<lparr>IdOf = ''arn:fw'', IsNewResource = False, prior = sampleState, cur = samplePlan,
     TimeoutCreate = 5, TimeoutUpdate = 5, TimeoutDelete = 5\<rparr>"

definition describeOutput :: "string \<Rightarrow> string \<Rightarrow> DescribeFirewallOutput" where
  "describeOutput st tok =
     \<lparr>FirewallOf = Some \<lparr>FirewallArn = Some ''arn:fw'', DeleteProtection = Some False,
                          Description = Some ''new'', EncryptionConfig = None,
                          FirewallName = Some ''fw'', FirewallPolicyArn = Some ''arn:policy'',
                          FirewallPolicyChangeProtection = Some False,
                          SubnetChangeProtection = Some False,
                          SubnetMappings = [], VpcId = Some ''vpc-1''\<rparr>,
      FirewallStatusOf = Some \<lparr>Status = Some st, SyncStates = None\<rparr>,
      UpdateToken = Some tok\<rparr>"

definition sampleScript :: script where
  "sampleScript =
     ([Inr (Some ''t1''), Inr (Some ''t2''), Inr (Some ''t3''), Inr (Some ''t5'')],
      [Inr (Some (describeOutput ''PROVISIONING'' ''t3'')),
       Inr (Some (describeOutput ''READY'' ''t4'')),
       Inr (Some (describeOutput ''READY'' ''t6'')),
       Inr (Some (describeOutput ''READY'' ''t6''))])"

definition subnetNoId4 :: tfSubnetMapping where
  "subnetNoId4 = \<lparr>subnet_id = [], ip_address_type = ''IPV4''\<rparr>"



text \<open>
  The errors, data and scripts of further passes: a firewall that is gone, a
  removal that the remote rejects as inaccessible, a call rejected for its
  token, a plan that changes nothing, a plan that only removes subnet c, and a
  creation whose firewall disappears before the first read.
\<close>

definition notFoundError :: error where
  "notFoundError = AwsError ''ResourceNotFoundException'' ''firewall not found''"

definition inaccessibleError :: error where
  "inaccessibleError = AwsError ''InvalidRequestException'' ''subnet subnet-c is inaccessible''"

definition tokenError :: error where
  "tokenError = AwsError ''InvalidTokenException'' ''update token mismatch''"

definition idleData :: ResourceData where
  "idleData = sampleData\<lparr>cur := sampleState\<rparr>"

definition removalData :: ResourceData where
  "removalData = sampleData\<lparr>cur := sampleState\<lparr>subnet_mapping :=
     NewSet (subnetMappingSetFunc sampleDeps) [subnetA]\<rparr>\<rparr>"

definition newData :: ResourceData where
  "newData = sampleData\<lparr>IdOf := [], IsNewResource := True\<rparr>"

definition readyScript :: script where
  "readyScript = ([], [Inr (Some (describeOutput ''READY'' ''t0''))])"

definition missingScript :: script where
  "missingScript = ([], [Inl notFoundError])"

definition inaccessibleScript :: script where
  "inaccessibleScript = ([Inl inaccessibleError], [Inr (Some (describeOutput ''READY'' ''t0''))])"

definition conflictScript :: script where
  "conflictScript = ([Inl tokenError, Inr (Some ''t9'')], [Inr (Some (describeOutput ''READY'' ''t0''))])"

definition goneScript :: script where
  "goneScript = ([Inl notFoundError], [])"

definition deleteScript :: script where
  "deleteScript = ([Inr None], [Inl notFoundError])"

definition createScript :: script where
  "createScript = ([Inr (Some ''arn:fw'')],
                   [Inr (Some (describeOutput ''READY'' ''t0'')), Inl notFoundError])"

text \<open>
  Three passes of the update: the sample plan against the sample script, with
  the trace it produces; the removal that is rejected as inaccessible; the
  sample plan with its first call rejected.
\<close>

definition sampleRun :: "(diagnostics \<times> ResourceData) \<times> event list \<times> script" where
  "sampleRun = resourceFirewallUpdate sampleDeps scriptedConn sampleData sampleScript"

definition sampleTrace :: "event list" where
  "sampleTrace =
     [Mutated (UpdateFirewallDescription ''arn:fw'' ''new'' ''t0'') (Inr (Some ''t1'')),
      Mutated (UpdateSubnetChangeProtection ''arn:fw'' False ''t1'') (Inr (Some ''t2'')),
      Mutated (AssociateSubnets ''arn:fw''
                 [\<lparr>SubnetId = Some ''subnet-b'', IPAddressType = Some ''IPV4''\<rparr>] ''t2'')
              (Inr (Some ''t3'')),
      Slept 30,
      Described ''arn:fw'' (Inr (Some (describeOutput ''PROVISIONING'' ''t3''))),
      Described ''arn:fw'' (Inr (Some (describeOutput ''READY'' ''t4''))),
      Mutated (DisassociateSubnets ''arn:fw'' [''subnet-c''] ''t4'') (Inr (Some ''t5'')),
      Slept 30,
      Described ''arn:fw'' (Inr (Some (describeOutput ''READY'' ''t6''))),
      Described ''arn:fw'' (Inr (Some (describeOutput ''READY'' ''t6'')))]"

definition inaccessibleRun :: "(diagnostics \<times> ResourceData) \<times> event list \<times> script" where
  "inaccessibleRun = resourceFirewallUpdate sampleDeps scriptedConn removalData inaccessibleScript"

definition conflictRun :: "(diagnostics \<times> ResourceData) \<times> event list \<times> script" where
  "conflictRun = resourceFirewallUpdate sampleDeps scriptedConn sampleData conflictScript"

text \<open>
  Two more passes with their traces: a plan that turns the policy change
  protection off and associates another policy, and a plan that only adds
  subnet b, whose wait sees the firewall provisioning and then ready.
\<close>

definition policyData :: ResourceData where
  "policyData = sampleData\<lparr>prior := sampleState\<lparr>firewall_policy_change_protection := True\<rparr>,
     cur := sampleState\<lparr>firewall_policy_arn := ''arn:policy-2''\<rparr>\<rparr>"

definition policyScript :: script where
  "policyScript = ([Inr (Some ''t1''), Inr (Some ''t2'')],
                   [Inr (Some (describeOutput ''READY'' ''t2''))])"

definition policyRun :: "(diagnostics \<times> ResourceData) \<times> event list \<times> script" where
  "policyRun = resourceFirewallUpdate sampleDeps scriptedConn policyData policyScript"

definition policyTrace :: "event list" where
  "policyTrace =
     [Mutated (UpdateFirewallPolicyChangeProtection ''arn:fw'' False ''t0'') (Inr (Some ''t1'')),
      Mutated (AssociateFirewallPolicy ''arn:fw'' ''arn:policy-2'' ''t1'') (Inr (Some ''t2'')),
      Described ''arn:fw'' (Inr (Some (describeOutput ''READY'' ''t2'')))]"

definition additionData :: ResourceData where
  "additionData = sampleData\<lparr>cur := sampleState\<lparr>subnet_mapping :=
     NewSet (subnetMappingSetFunc sampleDeps) [subnetA, subnetC, subnetB]\<rparr>\<rparr>"

definition additionScript :: script where
  "additionScript =
     ([Inr (Some ''t1'')],
      [Inr (Some (describeOutput ''PROVISIONING'' ''t1'')),
       Inr (Some (describeOutput ''READY'' ''t2'')),
       Inr (Some (describeOutput ''READY'' ''t2''))])"

definition additionRun :: "(diagnostics \<times> ResourceData) \<times> event list \<times> script" where
  "additionRun = resourceFirewallUpdate sampleDeps scriptedConn additionData additionScript"

definition additionTrace :: "event list" where
  "additionTrace =
     [Mutated (AssociateSubnets ''arn:fw''
                 [\<lparr>SubnetId = Some ''subnet-b'', IPAddressType = Some ''IPV4''\<rparr>] ''t0'')
              (Inr (Some ''t1'')),
      Slept 30,
      Described ''arn:fw'' (Inr (Some (describeOutput ''PROVISIONING'' ''t1''))),
      Described ''arn:fw'' (Inr (Some (describeOutput ''READY'' ''t2''))),
      Described ''arn:fw'' (Inr (Some (describeOutput ''READY'' ''t2'')))]"

section \<open>The differ\<close>

lemma set_List: "set (List s) = snd ` set s"
  by (simp add: List_def)

lemma length_List: "length (List s) = length s"
  by (simp add: List_def)


lemma Add_keys: "fst ` set (Add F s x) = insert (hash F x) (fst ` set s)"
  by (auto simp: Add_def Let_def)

lemma foldl_Add_keys:
  "fst ` set (foldl (Add F) acc xs) = fst ` set acc \<union> hash F ` set xs"
  by (induction xs arbitrary: acc) (simp_all add: Add_keys)


lemma foldl_Add_entries:
  assumes "inj_on (hash F) (snd ` set acc \<union> set xs)"
    and "\<forall>(k, v) \<in> set acc. k = hash F v"
  shows "set (foldl (Add F) acc xs) = set acc \<union> (\<lambda>x. (hash F x, x)) ` set xs"
  using assms
proof (induction xs arbitrary: acc)
  case Nil
  then show ?case by simp
next
  case (Cons x xs)
  let ?acc = "Add F acc x"
  have entries: "set ?acc = insert (hash F x, x) (set acc)"
  proof (cases "hash F x \<in> fst ` set acc")
    case True
    then obtain k v where kv: "(k, v) \<in> set acc" "k = hash F x" by force
    then have "hash F v = hash F x" using Cons.prems(2) by auto
    moreover have "v \<in> snd ` set acc \<union> set (x # xs)" using kv by force
    moreover have "x \<in> snd ` set acc \<union> set (x # xs)" by simp
    ultimately have "v = x" using Cons.prems(1) by (meson inj_onD)
    then show ?thesis using True kv by (auto simp: Add_def Let_def)
  next
    case False
    then show ?thesis by (auto simp: Add_def Let_def)
  qed
  have "snd ` set ?acc \<union> set xs = snd ` set acc \<union> set (x # xs)"
    using entries by auto
  then have inj: "inj_on (hash F) (snd ` set ?acc \<union> set xs)"
    using Cons.prems(1) by simp
  have cons: "\<forall>(k, v) \<in> set ?acc. k = hash F v"
    using entries Cons.prems(2) by auto
  show ?case using Cons.IH [OF inj cons] entries by auto
qed

lemma NewSet_keys: "fst ` set (NewSet F xs) = hash F ` set xs"
  by (simp add: NewSet_def foldl_Add_keys)


lemma NewSet_entries:
  "inj_on (hash F) (set xs) \<Longrightarrow> set (NewSet F xs) = (\<lambda>x. (hash F x, x)) ` set xs"
  using foldl_Add_entries [of F "[]" xs] by (simp add: NewSet_def)

lemma NewSet_elements:
  "inj_on (hash F) (set xs) \<Longrightarrow> set (List (NewSet F xs)) = set xs"
  by (simp add: set_List NewSet_entries image_image)

lemma NewSet_Nil_iff: "NewSet F xs = [] \<longleftrightarrow> xs = []"
  using NewSet_keys [of F xs] by (metis image_is_empty set_empty)

lemma Difference_entries:
  "set (Difference s other) = {(k, v). (k, v) \<in> set s \<and> k \<notin> fst ` set other}"
  by (auto simp: Difference_def)


lemma set_expandSubnetMappingIDs:
  "set (expandSubnetMappingIDs l) = subnet_id ` {x \<in> set l. subnet_id x \<noteq> []}"
  by (induction l) auto

lemma set_expandSubnetMappings_cong:
  "set l = set l' \<Longrightarrow> set (expandSubnetMappings l) = set (expandSubnetMappings l')"
proof -
  have "\<And>l. set (expandSubnetMappings l) = (\<lambda>x. hd (expandSubnetMappings [x])) ` set l"
  proof -
    fix l show "set (expandSubnetMappings l) = (\<lambda>x. hd (expandSubnetMappings [x])) ` set l"
      by (induction l) (auto simp: Let_def)
  qed
  then show "set l = set l' \<Longrightarrow> set (expandSubnetMappings l) = set (expandSubnetMappings l')"
    by simp
qed


lemma inj_on_distinct_map: "distinct (map f xs) \<Longrightarrow> inj_on f (set xs)"
  by (simp add: distinct_map)

text \<open>
  Claim C7, as amended. When the subnet ids of the old elements and of the new
  elements are disjoint, and no old element has the empty subnet id, the
  differ returns the subnet ids of all old elements as removals and the
  expansions of all new elements as additions; with no old element there is no
  removal, with no new element no addition. The set function and the
  fingerprint are assumed to give different elements different keys.
  The claim as written fails for an old element whose subnet id is empty:
  \<open>expandSubnetMappingIDs\<close> skips it (the counterexample below).
\<close>

theorem subnetMappingsDiff_disjoint:
  assumes injh: "inj_on (hash h) (set xs \<union> set ys)"
    and injc: "inj_on (hash (subnetMappingsHash H)) (set xs \<union> set ys)"
    and disj: "subnet_id ` set xs \<inter> subnet_id ` set ys = {}"
    and ne: "\<forall>x \<in> set xs. subnet_id x \<noteq> []"
  shows "set (fst (subnetMappingsDiff H (NewSet h xs) (NewSet h ys))) = subnet_id ` set xs
       \<and> set (snd (subnetMappingsDiff H (NewSet h xs) (NewSet h ys))) = set (expandSubnetMappings ys)
       \<and> (xs = [] \<longrightarrow> fst (subnetMappingsDiff H (NewSet h xs) (NewSet h ys)) = [])
       \<and> (ys = [] \<longrightarrow> snd (subnetMappingsDiff H (NewSet h xs) (NewSet h ys)) = [])"
proof -
  let ?old = "NewSet h xs" and ?new = "NewSet h ys"
  let ?c = "subnetMappingsHash H"
  have injhx: "inj_on (hash h) (set xs)" and injhy: "inj_on (hash h) (set ys)"
    using injh by (auto intro: inj_on_subset)
  have injcx: "inj_on (hash ?c) (set xs)" and injcy: "inj_on (hash ?c) (set ys)"
    using injc by (auto intro: inj_on_subset)
  have Lold: "set (List ?old) = set xs" and Lnew: "set (List ?new) = set ys"
    using injhx injhy by (simp_all add: NewSet_elements)
  have xy: "set xs \<inter> set ys = {}" using disj by auto
  have ids: "set (expandSubnetMappingIDs (List ?old)) = subnet_id ` set xs"
    using ne by (auto simp: set_expandSubnetMappingIDs Lold)
  have adds: "set (expandSubnetMappings (List ?new)) = set (expandSubnetMappings ys)"
    using Lnew by (rule set_expandSubnetMappings_cong)
  show ?thesis
  proof (cases "xs = [] \<or> ys = []")
    case True
    then show ?thesis
      using ids adds by (auto simp: subnetMappingsDiff_def Len_def NewSet_Nil_iff)
  next
    case False
    then have nz: "Len ?old \<noteq> 0" "Len ?new \<noteq> 0"
      by (simp_all add: Len_def NewSet_Nil_iff)
    let ?oldH = "NewSet ?c (List ?old)" and ?newH = "NewSet ?c (List ?new)"
    have injcx': "inj_on (hash ?c) (set (List ?old))" using injcx Lold by simp
    have keys_disj: "\<And>x. x \<in> set xs \<Longrightarrow> hash ?c x \<notin> hash ?c ` set ys"
      using injc xy by (auto dest!: inj_onD [OF injc])
    have "set (Difference ?oldH ?newH) = set ?oldH"
      using keys_disj
      by (auto simp: Difference_entries NewSet_keys NewSet_entries [OF injcx'] Lold Lnew)
    then have "snd ` set (Difference ?oldH ?newH) = set xs"
      by (simp add: NewSet_entries [OF injcx'] Lold image_image)
    then have rem: "set (expandSubnetMappingIDs (List (Difference ?oldH ?newH))) = subnet_id ` set xs"
      using ne by (auto simp: set_expandSubnetMappingIDs set_List)
    have keys_disj': "\<And>y. y \<in> set ys \<Longrightarrow> hash h y \<notin> hash h ` set xs"
      using xy by (auto dest!: inj_onD [OF injh])
    have "set (Difference ?new ?old) = set ?new"
      using keys_disj'
      by (auto simp: Difference_entries NewSet_keys NewSet_entries [OF injhy])
    then have "set (List (Difference ?new ?old)) = set ys"
      by (simp add: set_List NewSet_entries [OF injhy] image_image)
    then have add: "set (expandSubnetMappings (List (Difference ?new ?old))) = set (expandSubnetMappings ys)"
      by (rule set_expandSubnetMappings_cong)
    show ?thesis
      using False nz rem add by (simp add: subnetMappingsDiff_def Let_def)
  qed
qed

theorem subnetMappingsDiff_disjoint_witness:
  "inj_on (hash (subnetMappingSetFunc sampleDeps)) (set [subnetA, subnetC] \<union> set [subnetB])
   \<and> inj_on (hash (subnetMappingsHash polyHashcode)) (set [subnetA, subnetC] \<union> set [subnetB])
   \<and> subnet_id ` set [subnetA, subnetC] \<inter> subnet_id ` set [subnetB] = {}
   \<and> set (fst (subnetMappingsDiff polyHashcode
               (NewSet (subnetMappingSetFunc sampleDeps) [subnetA, subnetC])
               (NewSet (subnetMappingSetFunc sampleDeps) [subnetB])))
       = {''subnet-a'', ''subnet-c''}
   \<and> set (snd (subnetMappingsDiff polyHashcode
               (NewSet (subnetMappingSetFunc sampleDeps) [subnetA, subnetC])
               (NewSet (subnetMappingSetFunc sampleDeps) [subnetB])))
       = {\<lparr>SubnetId = Some ''subnet-b'', IPAddressType = Some ''IPV4''\<rparr>}"
proof -
  have "distinct (map (hash (subnetMappingSetFunc sampleDeps)) [subnetA, subnetC, subnetB])"
    by code_simp
  then have i1: "inj_on (hash (subnetMappingSetFunc sampleDeps)) (set [subnetA, subnetC] \<union> set [subnetB])"
    using inj_on_distinct_map [of "hash (subnetMappingSetFunc sampleDeps)" "[subnetA, subnetC, subnetB]"]
    by (simp add: insert_commute)
  have "distinct (map (hash (subnetMappingsHash polyHashcode)) [subnetA, subnetC, subnetB])"
    by code_simp
  then have i2: "inj_on (hash (subnetMappingsHash polyHashcode)) (set [subnetA, subnetC] \<union> set [subnetB])"
    using inj_on_distinct_map [of "hash (subnetMappingsHash polyHashcode)" "[subnetA, subnetC, subnetB]"]
    by (simp add: insert_commute)
  have i3: "subnet_id ` set [subnetA, subnetC] \<inter> subnet_id ` set [subnetB] = {}"
    by (simp add: subnetA_def subnetB_def subnetC_def)
  have i4: "\<forall>x \<in> set [subnetA, subnetC]. subnet_id x \<noteq> []"
    by (simp add: subnetA_def subnetC_def)
  from subnetMappingsDiff_disjoint [OF i1 i2 i3 i4] i1 i2 i3 show ?thesis
    by (simp add: subnetA_def subnetB_def subnetC_def)
qed

theorem subnetMappingsDiff_disjoint_counterexample:
  "fst (subnetMappingsDiff polyHashcode
          (NewSet (subnetMappingSetFunc sampleDeps) [subnetNoId4])
          (NewSet (subnetMappingSetFunc sampleDeps) [])) = []
   \<and> map subnet_id [subnetNoId4] = [[]]
   \<and> set (fst (subnetMappingsDiff polyHashcode
          (NewSet (subnetMappingSetFunc sampleDeps) [subnetNoId4])
          (NewSet (subnetMappingSetFunc sampleDeps) []))) \<noteq> subnet_id ` set [subnetNoId4]"
proof -
  have "fst (subnetMappingsDiff polyHashcode
          (NewSet (subnetMappingSetFunc sampleDeps) [subnetNoId4])
          (NewSet (subnetMappingSetFunc sampleDeps) [])) = []"
    by code_simp
  then show ?thesis by (simp add: subnetNoId4_def)
qed







section \<open>Traces of the update\<close>

lemma scalarChain_weaken:
  "scalarChain lo hi tok evs tok' \<Longrightarrow> lo' \<le> lo \<Longrightarrow> hi \<le> hi' \<Longrightarrow> scalarChain lo' hi' tok evs tok'"
  by (induction lo hi tok evs tok' arbitrary: lo' rule: scalarChain.induct) auto

lemma scalarChain_Cons:
  "scalarChain lo hi tok (ev # evs) tok' \<longleftrightarrow>
     (\<exists>m out. ev = Mutated m (Inr out) \<and> lo \<le> rank m \<and> rank m < hi \<and> TokenOf m = tok
        \<and> scalarChain (Suc (rank m)) hi (StringValue out) evs tok')"
  by (cases "(lo, hi, tok, ev # evs, tok')" rule: scalarChain.cases) auto

lemma scalarUpdate_cases:
  assumes "scalarUpdate conn ch input ef tok r = (res, evs, r')"
  obtains (skip) "\<not> ch" "res = Inr tok" "evs = []" "r' = r"
  | (fail) e where "ch" "res = Inl [ef e]" "evs = [Mutated (input tok) (Inl e)]"
      "MutateWithContext conn (input tok) r = (Inl e, r')"
  | (ok) out where "ch" "res = Inr (StringValue out)" "evs = [Mutated (input tok) (Inr out)]"
      "MutateWithContext conn (input tok) r = (Inr out, r')"
  using assms by (auto simp: scalarUpdate_def split: if_splits prod.splits sum.splits)

lemma runSteps_append:
  "runSteps (xs @ ys) tok r =
     (case runSteps xs tok r of
        (Inl ds, evs, r') \<Rightarrow> (Inl ds, evs, r')
      | (Inr tok', evs, r') \<Rightarrow>
          (case runSteps ys tok' r' of (res, evs', r'') \<Rightarrow> (res, evs @ evs', r'')))"
  by (induction xs arbitrary: tok r) (auto split: prod.splits sum.splits)

lemma scalar_phase:
  assumes "runSteps (scalarSteps conn specs) tok r = (res, evs, r')"
    and "rankedSpecs i lo specs"
  shows "case res of
           Inr tok' \<Rightarrow> scalarChain lo (lo + length specs) tok evs tok'
             \<and> (\<forall>(ch, input, ef) \<in> set specs. ch \<longrightarrow> (\<exists>t out. Mutated (input t) (Inr out) \<in> set evs))
         | Inl ds \<Rightarrow> (\<exists>S0 m e msg. evs = S0 @ [Mutated m (Inl e)]
             \<and> scalarChain lo (rank m) tok S0 (TokenOf m)
             \<and> lo \<le> rank m \<and> rank m < lo + length specs \<and> ds = [Errorf msg i e])"
  using assms
proof (induction specs arbitrary: lo tok r res evs r')
  case Nil
  then show ?case by (auto simp: scalarSteps_def)
next
  case (Cons s specs)
  obtain ch input ef where s: "s = (ch, input, ef)" by (cases s)
  from Cons.prems(2) s have rk: "\<And>t. rank (input t) = lo" "\<And>t. TokenOf (input t) = t"
    and ef: "\<exists>msg. ef = Errorf msg i" and rest: "rankedSpecs i (Suc lo) specs"
    by auto
  obtain res1 evs1 r1 where step: "scalarUpdate conn ch input ef tok r = (res1, evs1, r1)"
    by (metis prod_cases3)
  show ?case
  proof (cases res1)
    case (Inl ds)
    with step Cons.prems(1) s have out: "res = Inl ds" "evs = evs1"
      by (auto simp: scalarSteps_def)
    from step Inl obtain e where "ds = [ef e]" "evs1 = [Mutated (input tok) (Inl e)]"
      by (cases rule: scalarUpdate_cases) auto
    moreover obtain msg where "ef = Errorf msg i" using ef by auto
    ultimately have "evs = [] @ [Mutated (input tok) (Inl e)]
        \<and> scalarChain lo (rank (input tok)) tok [] (TokenOf (input tok))
        \<and> lo \<le> rank (input tok) \<and> rank (input tok) < lo + length (s # specs)
        \<and> ds = [Errorf msg i e]"
      using out rk by simp
    then show ?thesis using out by (simp del: append_Nil)
  next
    case (Inr tok1)
    obtain res2 evs2 r2 where tail: "runSteps (scalarSteps conn specs) tok1 r1 = (res2, evs2, r2)"
      by (metis prod_cases3)
    with step Inr Cons.prems(1) s have out: "res = res2" "evs = evs1 @ evs2"
      by (auto simp: scalarSteps_def)
    note IH = Cons.IH [OF tail rest]
    from step Inr have first: "scalarChain lo (Suc lo) tok evs1 tok1"
      and present: "ch \<longrightarrow> (\<exists>out. evs1 = [Mutated (input tok) (Inr out)])"
      and shape: "(evs1 = [] \<and> tok1 = tok) \<or> (\<exists>out. evs1 = [Mutated (input tok) (Inr out)] \<and> tok1 = StringValue out)"
      by (cases rule: scalarUpdate_cases; auto simp: rk)+
    show ?thesis
    proof (cases res2)
      case (Inl ds)
      with IH obtain S0 m e msg where f: "evs2 = S0 @ [Mutated m (Inl e)]"
        "scalarChain (Suc lo) (rank m) tok1 S0 (TokenOf m)"
        "Suc lo \<le> rank m" "rank m < Suc lo + length specs" "ds = [Errorf msg i e]"
        by auto
      have "scalarChain lo (rank m) tok (evs1 @ S0) (TokenOf m)"
        using shape first f(2,3) rk by (auto intro: scalarChain_weaken)
      then have "evs = (evs1 @ S0) @ [Mutated m (Inl e)]
          \<and> scalarChain lo (rank m) tok (evs1 @ S0) (TokenOf m)
          \<and> lo \<le> rank m \<and> rank m < lo + length (s # specs) \<and> ds = [Errorf msg i e]"
        using out f by simp
      then show ?thesis using out Inl by (simp del: append_assoc)
    next
      case (Inr tok2)
      with IH have c: "scalarChain (Suc lo) (Suc lo + length specs) tok1 evs2 tok2"
        and p: "\<forall>(ch, input, ef) \<in> set specs. ch \<longrightarrow> (\<exists>t out. Mutated (input t) (Inr out) \<in> set evs2)"
        by auto
      have "scalarChain lo (lo + length (s # specs)) tok (evs1 @ evs2) tok2"
        using shape c rk by (auto intro: scalarChain_weaken)
      moreover have "\<forall>(ch, input, ef) \<in> set (s # specs). ch \<longrightarrow> (\<exists>t out. Mutated (input t) (Inr out) \<in> set (evs1 @ evs2))"
        using present p s by fastforce
      ultimately show ?thesis using out Inr by auto
    qed
  qed
qed

lemma FindFirewallByARN_calls:
  assumes "FindFirewallByARN conn a r = (res, evs, r')"
  shows "\<exists>x. evs = [Described a x] \<and> DescribeFirewallWithContext conn a r = (x, r')
           \<and> (\<forall>e. res = Inl e \<longrightarrow> probedStatus (Described a x) = None)
           \<and> (\<forall>output fw st. res = Inr (output, fw, st) \<longrightarrow>
                 x = Inr (Some output) \<and> FirewallOf output = Some fw \<and> FirewallStatusOf output = Some st)"
  using assms
  by (auto simp: FindFirewallByARN_def split: prod.splits sum.splits option.splits if_splits)

lemma statusFirewall_calls:
  assumes "statusFirewall conn a r = ((res, s, err), evs, r')"
  shows "\<exists>x. evs = [Described a x]
           \<and> (res = None \<longrightarrow> probedStatus (Described a x) = None)
           \<and> (\<forall>output. res = Some output \<longrightarrow>
                 x = Inr (Some output) \<and> err = None
                 \<and> probedStatus (Described a x) = Some s
                 \<and> (\<exists>st. FirewallStatusOf output = Some st \<and> s = StringValue (Status st)))"
proof -
  obtain fres fevs fr where f: "FindFirewallByARN conn a r = (fres, fevs, fr)"
    by (metis prod_cases3)
  from FindFirewallByARN_calls [OF f] obtain x where x: "fevs = [Described a x]"
    "\<forall>e. fres = Inl e \<longrightarrow> probedStatus (Described a x) = None"
    "\<forall>output fw st. fres = Inr (output, fw, st) \<longrightarrow>
        x = Inr (Some output) \<and> FirewallOf output = Some fw \<and> FirewallStatusOf output = Some st"
    by blast
  show ?thesis
    using assms f x
    by (cases fres) (auto simp: statusFirewall_def split: if_splits)
qed

lemma refreshLoop_Suc_cases:
  assumes R: "Refresh conf r = ((res, s, e), evs1, r1)"
  obtains (cont) t' l' where "refreshLoop (Suc n) t l conf r =
        (case refreshLoop n t' l' conf r1 of (out, evs', r'') \<Rightarrow> (out, evs1 @ evs', r''))"
        "res = None \<or> s \<in> set (Pending conf) \<or> Pending conf = []"
    | (stop_err) out' e' where "refreshLoop (Suc n) t l conf r = ((out', Some e'), evs1, r1)"
    | (stop_absent) "res = None" "e = None" "Target conf = []"
        "refreshLoop (Suc n) t l conf r = ((None, None), evs1, r1)"
    | (stop_target) outp where "res = Some outp" "e = None" "s \<in> set (Target conf)"
        "refreshLoop (Suc n) t l conf r = ((Some outp, None), evs1, r1)"
proof (cases e)
  case (Some e')
  then have "refreshLoop (Suc n) t l conf r = ((res, Some e'), evs1, r1)"
    using R by simp
  then show ?thesis by (rule stop_err)
next
  case None
  note eNone = this
  show ?thesis
  proof (cases res)
    case None
    note resNone = this
    show ?thesis
    proof (cases "Target conf = []")
      case True
      then have "refreshLoop (Suc n) t l conf r = ((None, None), evs1, r1)"
        using R eNone resNone by simp
      with resNone eNone True show ?thesis by (rule stop_absent)
    next
      case False
      show ?thesis
      proof (cases "20 < Suc t")
        case True
        then have "refreshLoop (Suc n) t l conf r = ((None, Some (NotFoundError None)), evs1, r1)"
          using R eNone resNone False by simp
        then show ?thesis by (rule stop_err)
      next
        case nf: False
        have "refreshLoop (Suc n) t l conf r =
            (case refreshLoop n (Suc t) s conf r1 of (out, evs', r'') \<Rightarrow> (out, evs1 @ evs', r''))"
          using R eNone resNone False nf by simp
        moreover have "res = None \<or> s \<in> set (Pending conf) \<or> Pending conf = []"
          using resNone by simp
        ultimately show ?thesis by (rule cont)
      qed
    qed
  next
    case (Some outp)
    note resSome = this
    show ?thesis
    proof (cases "s \<in> set (Target conf)")
      case True
      then have "refreshLoop (Suc n) t l conf r = ((Some outp, None), evs1, r1)"
        using R eNone resSome by simp
      with resSome eNone True show ?thesis by (rule stop_target)
    next
      case False
      show ?thesis
      proof (cases "s \<in> set (Pending conf) \<or> Pending conf = []")
        case True
        then have "refreshLoop (Suc n) t l conf r =
            (case refreshLoop n 0 s conf r1 of (out, evs', r'') \<Rightarrow> (out, evs1 @ evs', r''))"
          using R eNone resSome False by auto
        moreover have "res = None \<or> s \<in> set (Pending conf) \<or> Pending conf = []"
          using True by blast
        ultimately show ?thesis by (rule cont)
      next
        case pf: False
        then have "refreshLoop (Suc n) t l conf r =
            ((Some outp, Some (UnexpectedStateError s)), evs1, r1)"
          using R eNone resSome False by auto
        then show ?thesis by (rule stop_err)
      qed
    qed
  qed
qed

lemma refreshLoop_calls:
  assumes "Refresh conf = statusFirewall conn a"
    and "refreshLoop n t l conf r = ((out, err), evs, r')"
  shows "(\<forall>ev \<in> set evs. isProbe a ev)
       \<and> (err = None \<longrightarrow> Target conf \<noteq> [] \<longrightarrow>
            (\<exists>P0 output st. evs = P0 @ [Described a (Inr (Some output))] \<and> out = Some output
               \<and> (\<forall>z \<in> set P0. probedStatus z = None
                      \<or> (\<exists>s \<in> set (Pending conf). probedStatus z = Some s) \<or> Pending conf = [])
               \<and> FirewallStatusOf output = Some st \<and> StringValue (Status st) \<in> set (Target conf)))"
  using assms(2)
proof (induction n arbitrary: t l r out err evs r')
  case 0
  then show ?case by auto
next
  case (Suc n)
  obtain res s e evs1 r1 where st: "statusFirewall conn a r = ((res, s, e), evs1, r1)"
    by (metis prod_cases3)
  from statusFirewall_calls [OF st] obtain x where x: "evs1 = [Described a x]"
    "\<forall>output. res = Some output \<longrightarrow> x = Inr (Some output) \<and> e = None
        \<and> (\<exists>st. FirewallStatusOf output = Some st \<and> s = StringValue (Status st))"
    and seen: "res = None \<longrightarrow> probedStatus (Described a x) = None"
      "\<forall>output. res = Some output \<longrightarrow> probedStatus (Described a x) = Some s"
    by blast
  from st assms(1) have R: "Refresh conf r = ((res, s, e), evs1, r1)" by simp
  from R show ?case
  proof (cases rule: refreshLoop_Suc_cases [where n = n and t = t and l = l])
    case (cont t' l')
    obtain out2 err2 evs2 r2 where tail: "refreshLoop n t' l' conf r1 = ((out2, err2), evs2, r2)"
      by (metis prod_cases3 surj_pair)
    from cont(1) tail Suc.prems have eq: "out = out2" "err = err2" "evs = evs1 @ evs2"
      by (auto simp del: refreshLoop.simps)
    have first: "probedStatus (Described a x) = None
        \<or> (\<exists>s \<in> set (Pending conf). probedStatus (Described a x) = Some s) \<or> Pending conf = []"
      using cont(2) seen by (cases res) auto
    note IH = Suc.IH [OF tail]
    have probes: "\<forall>ev \<in> set evs. isProbe a ev" using IH x(1) eq by auto
    have "\<exists>P0 outp st. evs = P0 @ [Described a (Inr (Some outp))] \<and> out = Some outp
               \<and> (\<forall>z \<in> set P0. probedStatus z = None
                      \<or> (\<exists>s \<in> set (Pending conf). probedStatus z = Some s) \<or> Pending conf = [])
               \<and> FirewallStatusOf outp = Some st \<and> StringValue (Status st) \<in> set (Target conf)"
      if "err = None" "Target conf \<noteq> []"
    proof -
      from IH that eq obtain P0 outp st where p: "evs2 = P0 @ [Described a (Inr (Some outp))]"
        "out2 = Some outp"
        "\<forall>z \<in> set P0. probedStatus z = None
            \<or> (\<exists>s \<in> set (Pending conf). probedStatus z = Some s) \<or> Pending conf = []"
        "FirewallStatusOf outp = Some st" "StringValue (Status st) \<in> set (Target conf)"
        by blast
      have "evs = (Described a x # P0) @ [Described a (Inr (Some outp))]"
        using eq x(1) p(1) by simp
      moreover have "\<forall>z \<in> set (Described a x # P0). probedStatus z = None
            \<or> (\<exists>s \<in> set (Pending conf). probedStatus z = Some s) \<or> Pending conf = []"
        using first p(3) by auto
      ultimately show ?thesis using p(2,4,5) eq by blast
    qed
    with probes show ?thesis by blast
  next
    case (stop_err out' e')
    then show ?thesis using Suc.prems x(1) by (auto simp del: refreshLoop.simps)
  next
    case stop_absent
    then show ?thesis using Suc.prems x(1) by (auto simp del: refreshLoop.simps)
  next
    case (stop_target outp)
    then show ?thesis using Suc.prems x by (auto simp del: refreshLoop.simps)
  qed
qed

lemma waitFirewallUpdated_calls:
  assumes "waitFirewallUpdated conn T a r = ((tok, err), W, r')"
  shows "waitTrace a W (case err of None \<Rightarrow> Some tok | Some e \<Rightarrow> None)"
proof -
  let ?conf = "\<lparr>Delay = 30, Pending = [FirewallStatusValueProvisioning],
                Target = [FirewallStatusValueReady], Refresh = statusFirewall conn a,
                Timeout = T\<rparr>"
  obtain out e evs r1 where loop: "refreshLoop T 0 [] ?conf r = ((out, e), evs, r1)"
    by (metis prod_cases3 surj_pair)
  have R: "Refresh ?conf = statusFirewall conn a" by simp
  note facts = refreshLoop_calls [OF R loop]
  from assms loop have W: "W = Slept 30 # evs" and err: "err = e"
    and tok: "tok = (case out of Some output \<Rightarrow> StringValue (UpdateToken output) | None \<Rightarrow> [])"
    by (auto simp: waitFirewallUpdated_def WaitForStateContext_def Let_def split: option.splits)
  show ?thesis
    using facts W err tok
    by (cases e) (auto simp: waitTrace_def)
qed

lemma associateSubnets_phase:
  assumes "associateSubnets conn d add tok r = (res, A, r')"
  shows "assocPhase d add tok A res"
proof (cases "add = []")
  case True
  then show ?thesis using assms by (auto simp: associateSubnets_def intro: assoc_skip)
next
  case False
  obtain mres r1 where m: "MutateWithContext conn (AssociateSubnets (IdOf d) add tok) r = (mres, r1)"
    by (cases "MutateWithContext conn (AssociateSubnets (IdOf d) add tok) r")
  show ?thesis
  proof (cases mres)
    case (Inl e)
    then show ?thesis using assms m False
      by (auto simp: associateSubnets_def Let_def intro: assoc_fail)
  next
    case (Inr out)
    obtain t werr W r2 where w: "waitFirewallUpdated conn (TimeoutUpdate d) (IdOf d) r1 = ((t, werr), W, r2)"
      by (metis prod_cases3 surj_pair)
    note wt = waitFirewallUpdated_calls [OF w]
    show ?thesis
    proof (cases werr)
      case None
      then show ?thesis using assms m False Inr w wt
        by (auto simp: associateSubnets_def Let_def intro: assoc_ok)
    next
      case (Some e)
      then show ?thesis using assms m False Inr w wt
        by (auto simp: associateSubnets_def Let_def intro: assoc_wait_fail)
    qed
  qed
qed

lemma disassociateSubnets_phase:
  assumes "disassociateSubnets conn d rem tok r = (res, D, r')"
  shows "disPhase d rem tok D res"
proof (cases "rem = []")
  case True
  then show ?thesis using assms by (auto simp: disassociateSubnets_def intro: dis_skip)
next
  case False
  obtain mres r1 where m: "MutateWithContext conn (DisassociateSubnets (IdOf d) rem tok) r = (mres, r1)"
    by (cases "MutateWithContext conn (DisassociateSubnets (IdOf d) rem tok) r")
  show ?thesis
  proof (cases mres)
    case (Inl e)
    show ?thesis
    proof (cases "ErrMessageContains (Some e) ErrCodeInvalidRequestException ''inaccessible''")
      case True
      then have "res = Inr tok" "D = [Mutated (DisassociateSubnets (IdOf d) rem tok) (Inl e)]"
        using assms m False Inl by (auto simp: disassociateSubnets_def Let_def)
      then show ?thesis using dis_inaccessible [OF False True] by simp
    next
      case nb: False
      then have "res = Inl [Errorf ''disassociating NetworkFirewall Firewall (%s) subnets: %s'' (IdOf d) e]"
        "D = [Mutated (DisassociateSubnets (IdOf d) rem tok) (Inl e)]"
        using assms m False Inl by (auto simp: disassociateSubnets_def Let_def)
      then show ?thesis using dis_fail [OF False nb] by simp
    qed
  next
    case (Inr out)
    obtain t werr W r2 where w: "waitFirewallUpdated conn (TimeoutUpdate d) (IdOf d) r1 = ((t, werr), W, r2)"
      by (metis prod_cases3 surj_pair)
    note wt = waitFirewallUpdated_calls [OF w]
    show ?thesis
    proof (cases werr)
      case None
      then show ?thesis using assms m False Inr w wt
        by (auto simp: disassociateSubnets_def Let_def intro: dis_ok)
    next
      case (Some e)
      then show ?thesis using assms m False Inr w wt
        by (auto simp: disassociateSubnets_def Let_def intro: dis_wait_fail)
    qed
  qed
qed

lemma updateSubnetMapping_phase:
  assumes "updateSubnetMapping dp conn d tok r = (res, M, r')"
  shows "subnetPhase dp d tok M res"
proof (cases "HasChangeSet d subnet_mapping")
  case False
  then show ?thesis using assms by (auto simp: updateSubnetMapping_def intro: subnet_unchanged)
next
  case True
  obtain rem add where diff: "subnetMappingsDiff (StringHashcode dp)
      (subnet_mapping (prior d)) (subnet_mapping (cur d)) = (rem, add)"
    by (metis surj_pair)
  obtain resA A rA where a: "associateSubnets conn d add tok r = (resA, A, rA)"
    by (metis prod_cases3)
  note pa = associateSubnets_phase [OF a]
  have run: "runSteps [associateSubnets conn d add, disassociateSubnets conn d rem] tok r
      = (res, M, r')"
    using assms True diff by (simp add: updateSubnetMapping_def GetChange_def)
  show ?thesis
  proof (cases resA)
    case (Inl ds)
    then have "M = A" "res = Inl ds" using run a by auto
    then show ?thesis using subnet_assoc_stopped [OF True diff] pa Inl by simp
  next
    case (Inr tokA)
    obtain resD D rD where dd: "disassociateSubnets conn d rem tokA rA = (resD, D, rD)"
      by (metis prod_cases3)
    note pd = disassociateSubnets_phase [OF dd]
    have "M = A @ D" "res = resD" using run a Inr dd by (auto split: sum.splits)
    then show ?thesis using subnet_assoc_done [OF True diff] pa pd Inr by simp
  qed
qed

lemma updateSteps_split:
  "updateSteps dp conn d = scalarSteps conn (scalarSpecs dp d) @ [updateSubnetMapping dp conn d]"
  by (simp add: updateSteps_def scalarSteps_def scalarSpecs_def)

lemma scalarSpecs_ranked: "rankedSpecs (IdOf d) 0 (scalarSpecs dp d)"
  by (simp add: scalarSpecs_def; blast)

lemma length_scalarSpecs: "length (scalarSpecs dp d) = 6"
  by (simp add: scalarSpecs_def)

lemma resourceFirewallRead_calls:
  assumes "resourceFirewallRead dp conn d r = (res, R, r')"
  shows "\<exists>x. R = [Described (IdOf d) x]"
proof -
  obtain fres fevs fr where f: "FindFirewallByARN conn (IdOf d) r = (fres, fevs, fr)"
    by (metis prod_cases3)
  from FindFirewallByARN_calls [OF f] obtain x where "fevs = [Described (IdOf d) x]" by blast
  then show ?thesis using assms f
    by (cases fres) (auto simp: resourceFirewallRead_def split: if_splits)
qed

lemma update_trace:
  assumes "resourceFirewallUpdate dp conn d r = ((diags, d'), evs, r')"
  obtains
    (scalar_failed) S0 m e msg where
      "evs = S0 @ [Mutated m (Inl e)]"
      "scalarChain 0 (rank m) (update_token (cur d)) S0 (TokenOf m)"
      "rank m < 6" "diags = [Errorf msg (IdOf d) e]" "d' = d"
  | (subnet_failed) S tokS M where
      "evs = S @ M"
      "scalarChain 0 6 (update_token (cur d)) S tokS"
      "\<forall>(ch, input, ef) \<in> set (scalarSpecs dp d). ch \<longrightarrow> (\<exists>t out. Mutated (input t) (Inr out) \<in> set S)"
      "subnetPhase dp d tokS M (Inl diags)" "d' = d"
  | (completed) S tokS M tokM x r1 where
      "evs = S @ M @ [Described (IdOf d) x]"
      "scalarChain 0 6 (update_token (cur d)) S tokS"
      "\<forall>(ch, input, ef) \<in> set (scalarSpecs dp d). ch \<longrightarrow> (\<exists>t out. Mutated (input t) (Inr out) \<in> set S)"
      "subnetPhase dp d tokS M (Inr tokM)"
      "resourceFirewallRead dp conn d r1 = ((diags, d'), [Described (IdOf d) x], r')"
proof -
  let ?tok0 = "update_token (cur d)"
  obtain resS S rS where s: "runSteps (scalarSteps conn (scalarSpecs dp d)) ?tok0 r = (resS, S, rS)"
    by (metis prod_cases3)
  note ph = scalar_phase [OF s scalarSpecs_ranked]
  show ?thesis
  proof (cases resS)
    case (Inl ds)
    then have "diags = ds" "d' = d" "evs = S"
      using assms s
      by (auto simp: resourceFirewallUpdate_def updateSteps_split runSteps_append Let_def)
    moreover from ph Inl obtain S0 m e msg where "S = S0 @ [Mutated m (Inl e)]"
      "scalarChain 0 (rank m) ?tok0 S0 (TokenOf m)" "rank m < 6" "ds = [Errorf msg (IdOf d) e]"
      by (auto simp: length_scalarSpecs)
    ultimately show ?thesis using scalar_failed by blast
  next
    case (Inr tokS)
    with ph have chain: "scalarChain 0 6 ?tok0 S tokS"
      and present: "\<forall>(ch, input, ef) \<in> set (scalarSpecs dp d). ch \<longrightarrow> (\<exists>t out. Mutated (input t) (Inr out) \<in> set S)"
      by (auto simp: length_scalarSpecs)
    obtain resM M rM where m: "updateSubnetMapping dp conn d tokS rS = (resM, M, rM)"
      by (metis prod_cases3)
    note pm = updateSubnetMapping_phase [OF m]
    show ?thesis
    proof (cases resM)
      case (Inl ds)
      then have "diags = ds" "d' = d" "evs = S @ M"
        using assms s Inr m
        by (auto simp: resourceFirewallUpdate_def updateSteps_split runSteps_append Let_def)
      then show ?thesis using subnet_failed chain present pm Inl by blast
    next
      case (Inr tokM)
      obtain resR R rR where rd: "resourceFirewallRead dp conn d rM = (resR, R, rR)"
        by (metis prod_cases3)
      from resourceFirewallRead_calls [OF rd] obtain x where x: "R = [Described (IdOf d) x]"
        by blast
      have "resR = (diags, d')" "evs = S @ M @ R" "r' = rR"
        using assms s \<open>resS = Inr tokS\<close> m Inr rd
        by (auto simp: resourceFirewallUpdate_def updateSteps_split runSteps_append Let_def)
      then show ?thesis using completed chain present pm Inr rd x by blast
    qed
  qed
qed

text \<open>The sample pass produces the sample trace.\<close>

lemma sampleRun_calls: "callsOf sampleRun = sampleTrace"
  by code_simp

lemma policyRun_calls: "callsOf policyRun = policyTrace"
  by code_simp

lemma additionRun_calls: "callsOf additionRun = additionTrace"
  by code_simp

lemma additionRun_diags: "fst (fst additionRun) = []"
  by code_simp

section \<open>The token discipline of the update\<close>

lemma tokenDiscipline_append:
  "tokenDiscipline h (a @ b) \<longleftrightarrow> tokenDiscipline h a \<and> tokenDiscipline (foldl heldAfter h a) b"
  by (induction a arbitrary: h) auto

lemma scalarChain_discipline:
  "scalarChain lo hi tok S tok' \<Longrightarrow> hi \<le> 6 \<Longrightarrow>
     tokenDiscipline (Holding tok) S \<and> foldl heldAfter (Holding tok) S = Holding tok'"
proof (induction lo hi tok S tok' rule: scalarChain.induct)
  case (2 lo hi tok m out evs tok')
  then show ?case by (cases m) (auto simp: heldAfter_def)
qed auto

lemma scalarChain_events:
  "scalarChain lo hi tok S tok' \<Longrightarrow> ev \<in> set S \<Longrightarrow>
     \<exists>m out. ev = Mutated m (Inr out) \<and> lo \<le> rank m \<and> rank m < hi"
  by (induction lo hi tok S tok' rule: scalarChain.induct; fastforce)

lemma scalarChain_ranks:
  "scalarChain lo hi tok S tok' \<Longrightarrow>
     sorted_wrt (<) (map rank (mutationsOf S)) \<and> (\<forall>m \<in> set (mutationsOf S). lo \<le> rank m \<and> rank m < hi)"
  by (induction lo hi tok S tok' rule: scalarChain.induct; fastforce)

lemma probes_discipline:
  "\<forall>ev \<in> set P. isProbe a ev \<Longrightarrow> tokenDiscipline h P"
proof (induction P arbitrary: h)
  case (Cons ev P)
  then show ?case by (cases ev) auto
qed simp

lemma probes_mutations: "\<forall>ev \<in> set P. isProbe a ev \<Longrightarrow> mutationsOf P = []"
proof (induction P)
  case (Cons ev P)
  then show ?case by (cases ev) auto
qed simp

lemma waitTrace_discipline:
  assumes "waitTrace a W x"
  shows "tokenDiscipline h W" and "x = Some t \<Longrightarrow> foldl heldAfter h W = Holding t"
    and "mutationsOf W = []"
proof -
  from assms obtain P where W: "W = Slept 30 # P" and P: "\<forall>ev \<in> set P. isProbe a ev"
    and fin: "\<forall>t. x = Some t \<longrightarrow> (\<exists>P0 output st. P = P0 @ [Described a (Inr (Some output))]
                \<and> FirewallStatusOf output = Some st
                \<and> StringValue (Status st) = FirewallStatusValueReady
                \<and> t = StringValue (UpdateToken output))"
    unfolding waitTrace_def by blast
  show "tokenDiscipline h W" using W probes_discipline [OF P] by (simp add: heldAfter_def)
  show "mutationsOf W = []" using W probes_mutations [OF P] by simp
  show "foldl heldAfter h W = Holding t" if "x = Some t"
  proof -
    from fin that obtain P0 outp where "P = P0 @ [Described a (Inr (Some outp))]"
      "t = StringValue (UpdateToken outp)" by blast
    then show ?thesis using W by (simp add: heldAfter_def)
  qed
qed

lemma assocPhase_discipline:
  assumes "assocPhase d add tok A res"
  shows "tokenDiscipline (Holding tok) A \<and> (\<forall>t. res = Inr t \<longrightarrow> foldl heldAfter (Holding tok) A = Holding t)"
  using assms
proof cases
  case (assoc_wait_fail W out e)
  from waitTrace_discipline(1) [OF \<open>waitTrace (IdOf d) W None\<close>] assoc_wait_fail
  show ?thesis by (simp add: heldAfter_def)
next
  case (assoc_ok W tok' out)
  note w = \<open>waitTrace (IdOf d) W (Some tok')\<close>
  from waitTrace_discipline(1) [OF w] waitTrace_discipline(2) [OF w refl] assoc_ok
  show ?thesis by (simp add: heldAfter_def)
qed (simp_all add: heldAfter_def)

lemma disPhase_discipline:
  assumes "disPhase d rem tok D res"
  shows "tokenDiscipline (Holding tok) D"
  using assms
proof cases
  case (dis_wait_fail W out e)
  from waitTrace_discipline(1) [OF \<open>waitTrace (IdOf d) W None\<close>] dis_wait_fail
  show ?thesis by (simp add: heldAfter_def)
next
  case (dis_ok W tok' out)
  from waitTrace_discipline(1) [OF \<open>waitTrace (IdOf d) W (Some tok')\<close>] dis_ok
  show ?thesis by (simp add: heldAfter_def)
qed (simp_all add: heldAfter_def)

lemma subnetPhase_discipline:
  assumes "subnetPhase dp d tok M res"
  shows "tokenDiscipline (Holding tok) M"
  using assms
proof cases
  case subnet_unchanged
  then show ?thesis by simp
next
  case (subnet_assoc_stopped rem add ds)
  then show ?thesis using assocPhase_discipline by blast
next
  case (subnet_assoc_done rem add A tokA D)
  then show ?thesis
    using assocPhase_discipline [of d add tok A "Inr tokA"] disPhase_discipline [of d rem tokA D res]
    by (simp add: tokenDiscipline_append)
qed

lemma discipline_distinct:
  "tokenDiscipline h evs \<Longrightarrow> freshTokens used evs \<Longrightarrow> (\<forall>t. h = Holding t \<longrightarrow> t \<notin> set used) \<Longrightarrow>
     distinct used \<Longrightarrow> distinct (rev (map TokenOf (mutationsOf evs)) @ used)"
proof (induction evs arbitrary: h used)
  case Nil
  then show ?case by simp
next
  case (Cons ev evs)
  show ?case
  proof (cases ev)
    case (Mutated m res)
    let ?used = "TokenOf m # used"
    from Cons.prems Mutated have h: "h = Holding (TokenOf m)" by simp
    with Cons.prems(3,4) have d: "distinct ?used" by simp
    have td: "tokenDiscipline (heldAfter h ev) evs" using Cons.prems(1) by simp
    have fr: "freshTokens ?used evs" using Cons.prems(2) Mutated by (simp add: Let_def)
    have inv: "\<forall>t. heldAfter h ev = Holding t \<longrightarrow> t \<notin> set ?used"
      using Cons.prems(2) Mutated
      by (auto simp: heldAfter_def Let_def split: option.splits)
    from Cons.IH [OF td fr inv d] Mutated show ?thesis by simp
  next
    case (Described a x)
    have td: "tokenDiscipline (heldAfter h ev) evs" using Cons.prems(1) by simp
    have fr: "freshTokens used evs" using Cons.prems(2) Described by (simp add: Let_def)
    have inv: "\<forall>t. heldAfter h ev = Holding t \<longrightarrow> t \<notin> set used"
      using Cons.prems(2,3) Described
      by (auto simp: heldAfter_def Let_def split: option.splits)
    from Cons.IH [OF td fr inv Cons.prems(4)] Described show ?thesis by simp
  next
    case (Created x y)
    then show ?thesis using Cons by (simp add: heldAfter_def)
  next
    case (Deleted x y)
    then show ?thesis using Cons by (simp add: heldAfter_def)
  next
    case (Slept n)
    then show ?thesis using Cons by (simp add: heldAfter_def)
  qed
qed

text \<open>
  Claim C1. Within one update pass every call that carries an update token
  carries the token the pass holds at that moment: at first the token of the
  state; after a scalar call that succeeded, the token of its output; after
  \<open>AssociateSubnets\<close>, the token read by the wait that follows. No call is
  issued on a token that went out with a failed call or with a subnet call
  and was not replaced since. Hence, when the remote never hands out a token
  that a call of the pass has already carried, no two calls of the pass carry
  the same token.
\<close>

theorem update_token_discipline:
  assumes "resourceFirewallUpdate dp conn d r = (res, evs, r')"
  shows "tokenDiscipline (Holding (update_token (cur d))) evs
       \<and> (freshTokens [] evs \<longrightarrow> distinct (map TokenOf (mutationsOf evs)))"
proof -
  obtain diags d' where res: "res = (diags, d')" by (cases res)
  have td: "tokenDiscipline (Holding (update_token (cur d))) evs"
    using assms [unfolded res]
  proof (cases rule: update_trace)
    case (scalar_failed S0 m e msg)
    then show ?thesis
      using scalarChain_discipline [OF scalar_failed(2)]
      by (simp add: tokenDiscipline_append heldAfter_def)
  next
    case (subnet_failed S tokS M)
    then show ?thesis
      using scalarChain_discipline [OF subnet_failed(2)] subnetPhase_discipline [OF subnet_failed(4)]
      by (simp add: tokenDiscipline_append)
  next
    case (completed S tokS M tokM x r1)
    then show ?thesis
      using scalarChain_discipline [OF completed(2)] subnetPhase_discipline [OF completed(4)]
      by (simp add: tokenDiscipline_append)
  qed
  moreover have "distinct (map TokenOf (mutationsOf evs))" if "freshTokens [] evs"
    using discipline_distinct [OF td that] by (simp add: distinct_rev flip: rev_map)
  ultimately show ?thesis by blast
qed

theorem update_token_discipline_witness:
  "freshTokens [] (callsOf sampleRun)
   \<and> tokenDiscipline (Holding ''t0'') (callsOf sampleRun)
   \<and> map TokenOf (mutationsOf (callsOf sampleRun)) = [''t0'', ''t1'', ''t2'', ''t4'']
   \<and> distinct (map TokenOf (mutationsOf (callsOf sampleRun)))"
proof -
  have fresh: "freshTokens [] (callsOf sampleRun)"
    unfolding sampleRun_calls by code_simp
  have sent: "map TokenOf (mutationsOf (callsOf sampleRun)) = [''t0'', ''t1'', ''t2'', ''t4'']"
    unfolding sampleRun_calls by code_simp
  have tok: "update_token (cur sampleData) = ''t0''" by code_simp
  obtain res evs r' where run:
    "resourceFirewallUpdate sampleDeps scriptedConn sampleData sampleScript = (res, evs, r')"
    by (metis prod_cases3)
  then have evs: "callsOf sampleRun = evs" by (simp add: sampleRun_def callsOf_def)
  from update_token_discipline [OF run] fresh sent tok show ?thesis
    unfolding evs by simp
qed

section \<open>The order of the calls\<close>

lemma unique_split:
  assumes "xs @ y # ys = pre @ x # post" and "P x"
    and "\<forall>z \<in> set xs. \<not> P z" and "\<forall>z \<in> set ys. \<not> P z"
  shows "pre = xs \<and> x = y \<and> post = ys"
  using assms
proof (induction xs arbitrary: pre)
  case Nil
  then show ?case by (cases pre) auto
next
  case (Cons a xs)
  then show ?case by (cases pre) auto
qed

lemma no_occurrence:
  assumes "xs = pre @ x # post" and "P x" and "\<forall>z \<in> set xs. \<not> P z"
  shows False
  using assms by auto

lemma prefix_before:
  assumes "xs @ ys = pre @ x # post" and "x \<notin> set xs"
  shows "\<exists>zs. pre = xs @ zs"
  using assms
proof (induction xs arbitrary: pre)
  case Nil
  then show ?case by simp
next
  case (Cons a xs)
  then show ?case by (cases pre) auto
qed

lemma mutationsOf_append: "mutationsOf (a @ b) = mutationsOf a @ mutationsOf b"
proof (induction a)
  case (Cons ev a)
  then show ?case by (cases ev) auto
qed simp

lemma assocPhase_mutations:
  assumes "assocPhase d add tok A res"
  shows "mutationsOf A = [] \<or> (\<exists>m. mutationsOf A = [m] \<and> rank m = 6)"
  using assms
proof cases
  case (assoc_wait_fail W out e)
  from waitTrace_discipline(3) [OF \<open>waitTrace (IdOf d) W None\<close>] assoc_wait_fail
  show ?thesis by simp
next
  case (assoc_ok W tok' out)
  from waitTrace_discipline(3) [OF \<open>waitTrace (IdOf d) W (Some tok')\<close>] assoc_ok
  show ?thesis by simp
qed simp_all

lemma disPhase_mutations:
  assumes "disPhase d rem tok D res"
  shows "mutationsOf D = [] \<or> (\<exists>m. mutationsOf D = [m] \<and> rank m = 7)"
  using assms
proof cases
  case (dis_wait_fail W out e)
  from waitTrace_discipline(3) [OF \<open>waitTrace (IdOf d) W None\<close>] dis_wait_fail
  show ?thesis by simp
next
  case (dis_ok W tok' out)
  from waitTrace_discipline(3) [OF \<open>waitTrace (IdOf d) W (Some tok')\<close>] dis_ok
  show ?thesis by simp
qed simp_all

lemma subnetPhase_mutations:
  assumes "subnetPhase dp d tok M res"
  shows "sorted_wrt (<) (map rank (mutationsOf M)) \<and> (\<forall>m \<in> set (mutationsOf M). 6 \<le> rank m)"
  using assms
proof cases
  case subnet_unchanged
  then show ?thesis by simp
next
  case (subnet_assoc_stopped rem add ds)
  then show ?thesis using assocPhase_mutations [of d add tok M res] by auto
next
  case (subnet_assoc_done rem add A tokA D)
  then show ?thesis
    using assocPhase_mutations [of d add tok A "Inr tokA"] disPhase_mutations [of d rem tokA D res]
    by (auto simp: mutationsOf_append)
qed

lemma update_ranks_sorted:
  assumes "resourceFirewallUpdate dp conn d r = ((diags, d'), evs, r')"
  shows "sorted_wrt (<) (map rank (mutationsOf evs))"
  using assms
proof (cases rule: update_trace)
  case (scalar_failed S0 m e msg)
  then show ?thesis
    using scalarChain_ranks [OF scalar_failed(2)]
    by (auto simp: mutationsOf_append sorted_wrt_append)
next
  case (subnet_failed S tokS M)
  then show ?thesis
    using scalarChain_ranks [OF subnet_failed(2)] subnetPhase_mutations [OF subnet_failed(4)]
    by (fastforce simp: mutationsOf_append sorted_wrt_append)
next
  case (completed S tokS M tokM x r1)
  then show ?thesis
    using scalarChain_ranks [OF completed(2)] subnetPhase_mutations [OF completed(4)]
    by (fastforce simp: mutationsOf_append sorted_wrt_append)
qed

lemma toggle_in_specs:
  "(HasChange d subnet_change_protection,
    UpdateSubnetChangeProtection (IdOf d) (subnet_change_protection (cur d)),
    Errorf ''updating NetworkFirewall Firewall (%s) subnet change protection: %s'' (IdOf d))
   \<in> set (scalarSpecs dp d)"
  by (simp add: scalarSpecs_def)

lemma update_toggle_first:
  assumes upd: "resourceFirewallUpdate dp conn d r = ((diags, d'), evs, r')"
    and split: "evs = pre @ Mutated m res # post" and rk: "6 \<le> rank m"
    and ch: "HasChange d subnet_change_protection"
  shows "\<exists>t out. Mutated (UpdateSubnetChangeProtection (IdOf d) (subnet_change_protection (cur d)) t)
                    (Inr out) \<in> set pre"
  using upd
proof (cases rule: update_trace)
  case (scalar_failed S0 m' e msg)
  have "\<forall>z \<in> set evs. \<not> (\<exists>m res. z = Mutated m res \<and> 6 \<le> rank m)"
    using scalar_failed(1,3) scalarChain_events [OF scalar_failed(2)] by fastforce
  then show ?thesis using split rk by auto
next
  case (subnet_failed S tokS M)
  from subnet_failed(3) toggle_in_specs [of d dp] ch
  obtain t out where t: "Mutated (UpdateSubnetChangeProtection (IdOf d) (subnet_change_protection (cur d)) t)
      (Inr out) \<in> set S" by blast
  have "Mutated m res \<notin> set S" using scalarChain_events [OF subnet_failed(2)] rk by fastforce
  with subnet_failed(1) split obtain zs where "pre = S @ zs" using prefix_before by metis
  then show ?thesis using t by auto
next
  case (completed S tokS M tokM x r1)
  from completed(3) toggle_in_specs [of d dp] ch
  obtain t out where t: "Mutated (UpdateSubnetChangeProtection (IdOf d) (subnet_change_protection (cur d)) t)
      (Inr out) \<in> set S" by blast
  have "Mutated m res \<notin> set S" using scalarChain_events [OF completed(2)] rk by fastforce
  with completed(1) split obtain zs where "pre = S @ zs" using prefix_before by metis
  then show ?thesis using t by auto
qed

lemma rankedSpecs_take: "rankedSpecs i lo specs \<Longrightarrow> rankedSpecs i lo (take k specs)"
proof (induction specs arbitrary: lo k)
  case Nil
  then show ?case by simp
next
  case (Cons s specs)
  obtain ch input ef where s: "s = (ch, input, ef)" by (cases s)
  show ?case
  proof (cases k)
    case 0
    then show ?thesis by simp
  next
    case (Suc k')
    then show ?thesis using Cons s by auto
  qed
qed

lemma scalarSteps_append:
  "scalarSteps conn (xs @ ys) = scalarSteps conn xs @ scalarSteps conn ys"
  by (simp add: scalarSteps_def)

lemma update_scalar_prefix:
  assumes upd: "resourceFirewallUpdate dp conn d r = ((diags, d'), evs, r')" and k: "k \<le> 6"
  obtains
    (failed) S0 m e where
      "evs = S0 @ [Mutated m (Inl e)]"
      "scalarChain 0 (rank m) (update_token (cur d)) S0 (TokenOf m)" "rank m < k"
  | (passed) S tokS rest where
      "evs = S @ rest" "scalarChain 0 k (update_token (cur d)) S tokS"
      "\<forall>(ch, input, ef) \<in> set (take k (scalarSpecs dp d)).
          ch \<longrightarrow> (\<exists>t out. Mutated (input t) (Inr out) \<in> set S)"
proof -
  let ?tok0 = "update_token (cur d)"
  let ?A = "take k (scalarSpecs dp d)" and ?B = "drop k (scalarSpecs dp d)"
  have steps: "updateSteps dp conn d
      = scalarSteps conn ?A @ (scalarSteps conn ?B @ [updateSubnetMapping dp conn d])"
    by (simp add: updateSteps_split flip: scalarSteps_append)
  have len: "length ?A = k" using k by (simp add: length_scalarSpecs)
  obtain resS S rS where s: "runSteps (scalarSteps conn ?A) ?tok0 r = (resS, S, rS)"
    by (metis prod_cases3)
  note ph = scalar_phase [OF s rankedSpecs_take [OF scalarSpecs_ranked]]
  show ?thesis
  proof (cases resS)
    case (Inl ds)
    then have "evs = S"
      using upd s by (auto simp: resourceFirewallUpdate_def steps runSteps_append Let_def)
    moreover from ph Inl obtain S0 m e where "S = S0 @ [Mutated m (Inl e)]"
      "scalarChain 0 (rank m) ?tok0 S0 (TokenOf m)" "rank m < k"
      using len by (auto simp del: length_take)
    ultimately show ?thesis using failed by blast
  next
    case (Inr tokS)
    with ph have chain: "scalarChain 0 k ?tok0 S tokS"
      and present: "\<forall>(ch, input, ef) \<in> set ?A. ch \<longrightarrow> (\<exists>t out. Mutated (input t) (Inr out) \<in> set S)"
      using len by (auto simp del: length_take)
    obtain res2 E2 r2 where rest:
      "runSteps (scalarSteps conn ?B @ [updateSubnetMapping dp conn d]) tokS rS = (res2, E2, r2)"
      by (metis prod_cases3)
    have "\<exists>rest. evs = S @ rest"
    proof (cases res2)
      case (Inl ds)
      then show ?thesis
        using upd s \<open>resS = Inr tokS\<close> rest
        by (auto simp: resourceFirewallUpdate_def steps runSteps_append [of "scalarSteps conn ?A"] Let_def)
    next
      case (Inr tok2)
      then show ?thesis
        using upd s \<open>resS = Inr tokS\<close> rest
        by (auto simp: resourceFirewallUpdate_def steps runSteps_append [of "scalarSteps conn ?A"] Let_def
            split: prod.splits)
    qed
    then show ?thesis using passed chain present by blast
  qed
qed

lemma policy_toggle_in_specs:
  "(HasChange d firewall_policy_change_protection,
    UpdateFirewallPolicyChangeProtection (IdOf d) (firewall_policy_change_protection (cur d)),
    Errorf ''updating NetworkFirewall Firewall (%s) firewall policy change protection: %s'' (IdOf d))
   \<in> set (take 4 (scalarSpecs dp d))"
  by (simp add: scalarSpecs_def)

lemma update_policy_toggle_first:
  assumes upd: "resourceFirewallUpdate dp conn d r = ((diags, d'), evs, r')"
    and split: "evs = pre @ Mutated m x # post" and rk: "4 \<le> rank m"
    and ch: "HasChange d firewall_policy_change_protection"
  shows "\<exists>t out. Mutated (UpdateFirewallPolicyChangeProtection (IdOf d)
                             (firewall_policy_change_protection (cur d)) t) (Inr out) \<in> set pre"
proof -
  have k: "(4::nat) \<le> 6" by simp
  from upd k show ?thesis
  proof (cases rule: update_scalar_prefix)
    case (failed S0 m' e)
    have "\<forall>z \<in> set evs. \<not> (\<exists>m x. z = Mutated m x \<and> 4 \<le> rank m)"
      using failed(1,3) scalarChain_events [OF failed(2)] by fastforce
    then show ?thesis using split rk by auto
  next
    case (passed S tokS rest)
    from passed(3) policy_toggle_in_specs [of d dp] ch
    obtain t out where t: "Mutated (UpdateFirewallPolicyChangeProtection (IdOf d)
        (firewall_policy_change_protection (cur d)) t) (Inr out) \<in> set S" by blast
    have "Mutated m x \<notin> set S" using scalarChain_events [OF passed(2)] rk by fastforce
    with passed(1) split obtain zs where "pre = S @ zs" using prefix_before by metis
    then show ?thesis using t by auto
  qed
qed

lemma isProbe_simps: "isProbe a z \<Longrightarrow> \<not> isFailed z \<and> \<not> isSubnetCall z"
  by (cases z) auto

lemma waitTrace_events:
  assumes "waitTrace a W x"
  obtains P where "W = Slept 30 # P" "\<forall>z \<in> set P. isProbe a z"
    "\<forall>z \<in> set W. \<not> isFailed z \<and> \<not> isSubnetCall z"
proof -
  from assms obtain P where P: "W = Slept 30 # P" "\<forall>z \<in> set P. isProbe a z"
    unfolding waitTrace_def by blast
  then have "\<forall>z \<in> set W. \<not> isFailed z \<and> \<not> isSubnetCall z"
    using isProbe_simps by auto
  with P show ?thesis using that by blast
qed

lemma waitTrace_not_failed:
  "waitTrace a W x \<Longrightarrow> \<forall>z \<in> set W. \<not> isFailed z \<and> \<not> isSubnetCall z"
  by (erule waitTrace_events) blast

lemma assocPhase_no_removal:
  assumes "assocPhase d add tok A res"
  shows "Mutated (DisassociateSubnets a ids t) y \<notin> set A"
  using assms
proof cases
  case (assoc_wait_fail W out e)
  then show ?thesis using waitTrace_not_failed by fastforce
next
  case (assoc_ok W tok' out)
  then show ?thesis using waitTrace_not_failed by fastforce
qed simp_all

lemma update_addition_first:
  assumes upd: "resourceFirewallUpdate dp conn d r = ((diags, d'), evs, r')"
    and split: "evs = pre @ Mutated (DisassociateSubnets a ids t) y # post"
    and diff: "subnetMappingsDiff (StringHashcode dp) (subnet_mapping (prior d)) (subnet_mapping (cur d))
                 = (rem, add)"
    and some: "add \<noteq> []"
  shows "\<exists>t' out. Mutated (AssociateSubnets (IdOf d) add t') (Inr out) \<in> set pre"
proof -
  let ?Y = "Mutated (DisassociateSubnets a ids t) y"
  have inY: "?Y \<in> set evs" using split by simp
  have notS: "?Y \<notin> set S" if "scalarChain 0 k tok0 S tokS" "k \<le> 6" for S k tok0 tokS
    using scalarChain_events [OF that(1), of ?Y] that(2) by auto
  have phase: ?thesis if ev: "evs = S @ M @ R" and ch: "scalarChain 0 6 tok0 S tokS"
    and ph: "subnetPhase dp d tokS M res" and R: "?Y \<notin> set R" for S M R tok0 tokS res
    using ph
  proof cases
    case subnet_unchanged
    then show ?thesis using inY ev notS [OF ch] R by simp
  next
    case (subnet_assoc_stopped rem' add')
    then show ?thesis using inY ev notS [OF ch] R assocPhase_no_removal by fastforce
  next
    case (subnet_assoc_done rem' add' A tokA D)
    then have add': "add' = add" using diff by simp
    from subnet_assoc_done(4) show ?thesis
    proof cases
      case assoc_skip
      then show ?thesis using add' some by simp
    next
      case (assoc_ok W out)
      have "?Y \<notin> set (S @ A)"
        using notS [OF ch] assocPhase_no_removal [OF subnet_assoc_done(4)] by simp
      moreover have "(S @ A) @ (D @ R) = pre @ ?Y # post"
        using ev subnet_assoc_done(1) split by simp
      ultimately obtain zs where "pre = (S @ A) @ zs" using prefix_before by metis
      then show ?thesis using assoc_ok(1) add' by auto
    qed
  qed
  from upd show ?thesis
  proof (cases rule: update_trace)
    case (scalar_failed S0 m e msg)
    have "?Y \<notin> set S0" using notS [OF scalar_failed(2)] scalar_failed(3) by simp
    moreover have "?Y \<noteq> Mutated m (Inl e)" using scalar_failed(3) by auto
    ultimately show ?thesis using inY scalar_failed(1) by simp
  next
    case (subnet_failed S tokS M)
    have "evs = S @ M @ []" using subnet_failed(1) by simp
    then show ?thesis using subnet_failed(2,4) by (rule phase) simp
  next
    case (completed S tokS M tokM x r1)
    from completed(1,2,4) show ?thesis by (rule phase) simp
  qed
qed

text \<open>
  Claim C2. The calls of an update pass are issued in the fixed order of their
  ranks, each kind at most once: delete protection, description, encryption
  configuration, policy change protection, policy association, subnet change
  protection, subnet addition, subnet removal. When the policy change
  protection changed, the policy association and every later call of the pass
  are preceded by the successful call that sets that protection; when the
  subnet change protection changed, every subnet call of the pass is preceded
  by the successful call that sets it; when the differ found subnets to add, a
  removal is preceded by the successful addition of those subnets.
\<close>

theorem update_precedence:
  assumes "resourceFirewallUpdate dp conn d r = (res, evs, r')"
  shows "sorted_wrt (<) (map rank (mutationsOf evs))
       \<and> (\<forall>pre m x post. evs = pre @ Mutated m x # post \<and> 4 \<le> rank m
              \<and> HasChange d firewall_policy_change_protection \<longrightarrow>
            (\<exists>t out. Mutated (UpdateFirewallPolicyChangeProtection (IdOf d)
                                (firewall_policy_change_protection (cur d)) t) (Inr out) \<in> set pre))
       \<and> (\<forall>pre m x post. evs = pre @ Mutated m x # post \<and> 6 \<le> rank m
              \<and> HasChange d subnet_change_protection \<longrightarrow>
            (\<exists>t out. Mutated (UpdateSubnetChangeProtection (IdOf d)
                                (subnet_change_protection (cur d)) t) (Inr out) \<in> set pre))
       \<and> (\<forall>pre a ids t y post rem add.
              evs = pre @ Mutated (DisassociateSubnets a ids t) y # post
              \<and> subnetMappingsDiff (StringHashcode dp) (subnet_mapping (prior d))
                   (subnet_mapping (cur d)) = (rem, add)
              \<and> add \<noteq> [] \<longrightarrow>
            (\<exists>t' out. Mutated (AssociateSubnets (IdOf d) add t') (Inr out) \<in> set pre))"
proof -
  obtain diags d' where res: "res = (diags, d')" by (cases res)
  note upd = assms [unfolded res]
  have "sorted_wrt (<) (map rank (mutationsOf evs))"
    by (rule update_ranks_sorted [OF upd])
  moreover have "\<forall>pre m x post. evs = pre @ Mutated m x # post \<and> 4 \<le> rank m
              \<and> HasChange d firewall_policy_change_protection \<longrightarrow>
            (\<exists>t out. Mutated (UpdateFirewallPolicyChangeProtection (IdOf d)
                                (firewall_policy_change_protection (cur d)) t) (Inr out) \<in> set pre)"
    using update_policy_toggle_first [OF upd] by blast
  moreover have "\<forall>pre m x post. evs = pre @ Mutated m x # post \<and> 6 \<le> rank m
              \<and> HasChange d subnet_change_protection \<longrightarrow>
            (\<exists>t out. Mutated (UpdateSubnetChangeProtection (IdOf d)
                                (subnet_change_protection (cur d)) t) (Inr out) \<in> set pre)"
    using update_toggle_first [OF upd] by blast
  moreover have "\<forall>pre a ids t y post rem add.
              evs = pre @ Mutated (DisassociateSubnets a ids t) y # post
              \<and> subnetMappingsDiff (StringHashcode dp) (subnet_mapping (prior d))
                   (subnet_mapping (cur d)) = (rem, add)
              \<and> add \<noteq> [] \<longrightarrow>
            (\<exists>t' out. Mutated (AssociateSubnets (IdOf d) add t') (Inr out) \<in> set pre)"
    using update_addition_first [OF upd] by blast
  ultimately show ?thesis by (intro conjI)
qed

theorem update_precedence_witness:
  "map rank (mutationsOf (callsOf sampleRun)) = [1, 5, 6, 7]
   \<and> sorted_wrt (<) (map rank (mutationsOf (callsOf sampleRun)))
   \<and> HasChange sampleData subnet_change_protection
   \<and> callsOf sampleRun = take 6 sampleTrace
        @ Mutated (DisassociateSubnets ''arn:fw'' [''subnet-c''] ''t4'') (Inr (Some ''t5''))
        # drop 7 sampleTrace
   \<and> (\<exists>t out. Mutated (UpdateSubnetChangeProtection ''arn:fw'' False t) (Inr out)
                  \<in> set (take 6 sampleTrace))
   \<and> (\<exists>t out. Mutated (AssociateSubnets ''arn:fw''
                          [\<lparr>SubnetId = Some ''subnet-b'', IPAddressType = Some ''IPV4''\<rparr>] t) (Inr out)
                  \<in> set (take 6 sampleTrace))
   \<and> HasChange policyData firewall_policy_change_protection
   \<and> callsOf policyRun = take 1 policyTrace
        @ Mutated (AssociateFirewallPolicy ''arn:fw'' ''arn:policy-2'' ''t1'') (Inr (Some ''t2''))
        # drop 2 policyTrace
   \<and> (\<exists>t out. Mutated (UpdateFirewallPolicyChangeProtection ''arn:fw'' False t) (Inr out)
                  \<in> set (take 1 policyTrace))"
proof -
  have ranks: "map rank (mutationsOf (callsOf sampleRun)) = [1, 5, 6, 7]"
    unfolding sampleRun_calls by code_simp
  have ch: "HasChange sampleData subnet_change_protection" by code_simp
  have split: "callsOf sampleRun = take 6 sampleTrace
        @ Mutated (DisassociateSubnets ''arn:fw'' [''subnet-c''] ''t4'') (Inr (Some ''t5''))
        # drop 7 sampleTrace"
    unfolding sampleRun_calls by code_simp
  have ident: "IdOf sampleData = ''arn:fw''" "subnet_change_protection (cur sampleData) = False"
    by code_simp+
  have diff: "subnetMappingsDiff (StringHashcode sampleDeps) (subnet_mapping (prior sampleData))
      (subnet_mapping (cur sampleData))
      = ([''subnet-c''], [\<lparr>SubnetId = Some ''subnet-b'', IPAddressType = Some ''IPV4''\<rparr>])"
    by code_simp
  have run: "resourceFirewallUpdate sampleDeps scriptedConn sampleData sampleScript
      = (fst sampleRun, callsOf sampleRun, snd (snd sampleRun))"
    by (simp add: sampleRun_def callsOf_def)
  note order = update_precedence [OF run]
  have sorted: "sorted_wrt (<) (map rank (mutationsOf (callsOf sampleRun)))"
    by (rule order [THEN conjunct1])
  have toggle: "\<exists>t out. Mutated (UpdateSubnetChangeProtection ''arn:fw'' False t) (Inr out)
                  \<in> set (take 6 sampleTrace)"
    using order [THEN conjunct2, THEN conjunct2, THEN conjunct1, rule_format,
        of "take 6 sampleTrace" "DisassociateSubnets ''arn:fw'' [''subnet-c''] ''t4''"
          "Inr (Some ''t5'')" "drop 7 sampleTrace"]
      split ch ident by simp
  have added: "\<exists>t out. Mutated (AssociateSubnets ''arn:fw''
                          [\<lparr>SubnetId = Some ''subnet-b'', IPAddressType = Some ''IPV4''\<rparr>] t) (Inr out)
                  \<in> set (take 6 sampleTrace)"
    using order [THEN conjunct2, THEN conjunct2, THEN conjunct2, rule_format,
        of "take 6 sampleTrace" "''arn:fw''" "[''subnet-c'']" "''t4''"
          "Inr (Some ''t5'')" "drop 7 sampleTrace" "[''subnet-c'']"
          "[\<lparr>SubnetId = Some ''subnet-b'', IPAddressType = Some ''IPV4''\<rparr>]"]
      split diff ident by simp
  have pch: "HasChange policyData firewall_policy_change_protection" by code_simp
  have psplit: "callsOf policyRun = take 1 policyTrace
        @ Mutated (AssociateFirewallPolicy ''arn:fw'' ''arn:policy-2'' ''t1'') (Inr (Some ''t2''))
        # drop 2 policyTrace"
    unfolding policyRun_calls by code_simp
  have pident: "IdOf policyData = ''arn:fw''"
    "firewall_policy_change_protection (cur policyData) = False"
    by code_simp+
  have prun: "resourceFirewallUpdate sampleDeps scriptedConn policyData policyScript
      = (fst policyRun, callsOf policyRun, snd (snd policyRun))"
    by (simp add: policyRun_def callsOf_def)
  have policy: "\<exists>t out. Mutated (UpdateFirewallPolicyChangeProtection ''arn:fw'' False t) (Inr out)
                  \<in> set (take 1 policyTrace)"
    using update_precedence [OF prun, THEN conjunct2, THEN conjunct1, rule_format,
        of "take 1 policyTrace" "AssociateFirewallPolicy ''arn:fw'' ''arn:policy-2'' ''t1''"
          "Inr (Some ''t2'')" "drop 2 policyTrace"]
      psplit pch pident by simp
  show ?thesis
    by (intro conjI) (fact ranks, fact sorted, fact ch, fact split, fact toggle, fact added,
      fact pch, fact psplit, fact policy)
qed

section \<open>Failed calls\<close>

lemma scalarChain_not_failed:
  "scalarChain lo hi tok S tok' \<Longrightarrow> \<forall>z \<in> set S. \<not> isFailed z"
  using scalarChain_events by fastforce

lemma scalarChain_not_subnet:
  "scalarChain lo hi tok S tok' \<Longrightarrow> hi \<le> 6 \<Longrightarrow> \<forall>z \<in> set S. \<not> isSubnetCall z"
proof
  fix z assume c: "scalarChain lo hi tok S tok'" and hi: "hi \<le> 6" and z: "z \<in> set S"
  from scalarChain_events [OF c z] obtain m out where "z = Mutated m (Inr out)" "rank m < hi"
    by blast
  with hi show "\<not> isSubnetCall z" by (cases m) auto
qed

lemma update_failure_position:
  assumes upd: "resourceFirewallUpdate dp conn d r = ((diags, d'), evs, r')"
    and split: "evs = pre @ Mutated m (Inl e) # post"
  shows "(post = [] \<and> (\<exists>msg. diags = [Errorf msg (IdOf d) e]) \<and> d' = d
            \<and> \<not> ((\<exists>a ids t. m = DisassociateSubnets a ids t)
                  \<and> ErrMessageContains (Some e) ErrCodeInvalidRequestException ''inaccessible'')
            \<and> ((\<exists>a ids t. m = DisassociateSubnets a ids t) \<longrightarrow>
                  diags = [Errorf ''disassociating NetworkFirewall Firewall (%s) subnets: %s'' (IdOf d) e]))
       \<or> ((\<exists>a ids t. m = DisassociateSubnets a ids t)
            \<and> ErrMessageContains (Some e) ErrCodeInvalidRequestException ''inaccessible''
            \<and> (\<exists>r1 x. post = [Described (IdOf d) x]
                  \<and> resourceFirewallRead dp conn d r1 = ((diags, d'), post, r')))"
proof -
  have key: "\<And>xs y ys. evs = xs @ y # ys \<Longrightarrow> \<forall>z \<in> set xs. \<not> isFailed z \<Longrightarrow>
      \<forall>z \<in> set ys. \<not> isFailed z \<Longrightarrow> pre = xs \<and> Mutated m (Inl e) = y \<and> post = ys"
    using unique_split [of _ _ _ pre "Mutated m (Inl e)" post isFailed] split by simp
  have none: "\<forall>z \<in> set evs. \<not> isFailed z \<Longrightarrow> False"
    using split by auto
  from upd show ?thesis
  proof (cases rule: update_trace)
    case (scalar_failed S0 m' e' msg)
    from key [of S0 "Mutated m' (Inl e')" "[]"] scalar_failed(1)
      scalarChain_not_failed [OF scalar_failed(2)]
    have "post = []" "m = m'" "e = e'" by auto
    moreover have "\<not> (\<exists>a ids t. m' = DisassociateSubnets a ids t)"
      using scalar_failed(3) by auto
    ultimately show ?thesis using scalar_failed(4,5) by auto
  next
    case (subnet_failed S tokS M)
    note nfS = scalarChain_not_failed [OF subnet_failed(2)]
    from subnet_failed(4) show ?thesis
    proof cases
      case (subnet_assoc_stopped rem add)
      from subnet_assoc_stopped(3) show ?thesis
      proof cases
        case (assoc_fail e')
        from key [of S "Mutated (AssociateSubnets (IdOf d) add tokS) (Inl e')" "[]"]
          subnet_failed(1) assoc_fail nfS
        have "post = []" "m = AssociateSubnets (IdOf d) add tokS" "e = e'" by auto
        then show ?thesis using assoc_fail subnet_failed(5) by auto
      next
        case (assoc_wait_fail W out e')
        from assoc_wait_fail have "\<forall>z \<in> set W. \<not> isFailed z \<and> \<not> isSubnetCall z"
          using waitTrace_not_failed by blast
        then have "\<forall>z \<in> set evs. \<not> isFailed z"
          using subnet_failed(1) assoc_wait_fail(1) nfS by auto
        then show ?thesis using none by blast
      qed
    next
      case (subnet_assoc_done rem add A tokA D)
      have nfA: "\<forall>z \<in> set A. \<not> isFailed z"
        using subnet_assoc_done(4)
      proof cases
        case assoc_skip
        then show ?thesis by simp
      next
        case (assoc_ok W out)
        from assoc_ok have "\<forall>z \<in> set W. \<not> isFailed z \<and> \<not> isSubnetCall z"
          using waitTrace_not_failed by blast
        then show ?thesis using assoc_ok(1) by auto
      qed
      from subnet_assoc_done(5) show ?thesis
      proof cases
        case (dis_fail e')
        from key [of "S @ A" "Mutated (DisassociateSubnets (IdOf d) rem tokA) (Inl e')" "[]"]
          subnet_failed(1) subnet_assoc_done(1) dis_fail nfS nfA
        have "post = []" "m = DisassociateSubnets (IdOf d) rem tokA" "e = e'" by auto
        then show ?thesis using dis_fail subnet_failed(5) by auto
      next
        case (dis_wait_fail W out e')
        from dis_wait_fail have "\<forall>z \<in> set W. \<not> isFailed z \<and> \<not> isSubnetCall z"
          using waitTrace_not_failed by blast
        then have "\<forall>z \<in> set evs. \<not> isFailed z"
          using subnet_failed(1) subnet_assoc_done(1) dis_wait_fail(1) nfS nfA by auto
        then show ?thesis using none by blast
      qed
    qed
  next
    case (completed S tokS M tokM x r1)
    note nfS = scalarChain_not_failed [OF completed(2)]
    from completed(4) show ?thesis
    proof cases
      case subnet_unchanged
      then have "\<forall>z \<in> set evs. \<not> isFailed z" using completed(1) nfS by auto
      then show ?thesis using none by blast
    next
      case (subnet_assoc_done rem add A tokA D)
      have nfA: "\<forall>z \<in> set A. \<not> isFailed z"
        using subnet_assoc_done(4)
      proof cases
        case assoc_skip
        then show ?thesis by simp
      next
        case (assoc_ok W out)
        from assoc_ok have "\<forall>z \<in> set W. \<not> isFailed z \<and> \<not> isSubnetCall z"
          using waitTrace_not_failed by blast
        then show ?thesis using assoc_ok(1) by auto
      qed
      from subnet_assoc_done(5) show ?thesis
      proof cases
        case dis_skip
        then have "\<forall>z \<in> set evs. \<not> isFailed z"
          using completed(1) subnet_assoc_done(1) nfS nfA by auto
        then show ?thesis using none by blast
      next
        case (dis_inaccessible e')
        from key [of "S @ A" "Mutated (DisassociateSubnets (IdOf d) rem tokA) (Inl e')"
            "[Described (IdOf d) x]"]
          completed(1) subnet_assoc_done(1) dis_inaccessible nfS nfA
        have "post = [Described (IdOf d) x]" "m = DisassociateSubnets (IdOf d) rem tokA" "e = e'"
          by auto
        then show ?thesis using dis_inaccessible completed(5) by auto
      next
        case (dis_ok W tok' out)
        from dis_ok have "\<forall>z \<in> set W. \<not> isFailed z \<and> \<not> isSubnetCall z"
          using waitTrace_not_failed by blast
        then have "\<forall>z \<in> set evs. \<not> isFailed z"
          using completed(1) subnet_assoc_done(1) dis_ok(1) nfS nfA by auto
        then show ?thesis using none by blast
      qed
    qed
  qed
qed

text \<open>
  Claim C9. When a call of an update pass fails, other than a subnet removal
  rejected as inaccessible, the failed call is the last call of the pass: no
  later call is issued, nothing is undone, the diagnostics report the error of
  that call, and the resource data are returned as they were.
\<close>

theorem update_failure_aborts:
  assumes "resourceFirewallUpdate dp conn d r = ((diags, d'), evs, r')"
    and "evs = pre @ Mutated m (Inl e) # post"
    and "\<not> ((\<exists>a ids t. m = DisassociateSubnets a ids t)
            \<and> ErrMessageContains (Some e) ErrCodeInvalidRequestException ''inaccessible'')"
  shows "post = [] \<and> (\<exists>msg. diags = [Errorf msg (IdOf d) e]) \<and> d' = d"
  using update_failure_position [OF assms(1,2)] assms(3) by blast

theorem update_failure_aborts_witness:
  "callsOf conflictRun
     = [Mutated (UpdateFirewallDescription ''arn:fw'' ''new'' ''t0'') (Inl tokenError)]
   \<and> fst conflictRun
     = ([Errorf ''updating NetworkFirewall Firewall (%s) description: %s'' ''arn:fw'' tokenError],
        sampleData)
   \<and> (\<exists>msg. fst (fst conflictRun) = [Errorf msg (IdOf sampleData) tokenError])"
proof -
  have calls: "callsOf conflictRun
     = [] @ Mutated (UpdateFirewallDescription ''arn:fw'' ''new'' ''t0'') (Inl tokenError) # []"
    by code_simp
  have res: "fst conflictRun
     = ([Errorf ''updating NetworkFirewall Firewall (%s) description: %s'' ''arn:fw'' tokenError],
        sampleData)"
    by code_simp
  have run: "resourceFirewallUpdate sampleDeps scriptedConn sampleData conflictScript
      = ((fst (fst conflictRun), snd (fst conflictRun)), callsOf conflictRun, snd (snd conflictRun))"
    by (simp add: conflictRun_def callsOf_def)
  have other: "\<not> ((\<exists>a ids t. UpdateFirewallDescription ''arn:fw'' ''new'' ''t0'' = DisassociateSubnets a ids t)
      \<and> ErrMessageContains (Some tokenError) ErrCodeInvalidRequestException ''inaccessible'')"
    by simp
  from update_failure_aborts [OF run calls other] calls res show ?thesis by simp
qed

text \<open>
  Claim C4. When \<open>DisassociateSubnets\<close> fails with an
  \<open>InvalidRequestException\<close> whose message contains \<open>inaccessible\<close>, the pass goes on
  to the final read and returns what that read returns; when it fails in any
  other way, the failed call is the last call of the pass and the diagnostics
  report the error as a failure to disassociate.
\<close>

theorem disassociate_inaccessible:
  assumes "resourceFirewallUpdate dp conn d r = ((diags, d'), evs, r')"
    and "evs = pre @ Mutated (DisassociateSubnets a ids t) (Inl e) # post"
  shows "(ErrMessageContains (Some e) ErrCodeInvalidRequestException ''inaccessible'' \<longrightarrow>
            (\<exists>r1 x. post = [Described (IdOf d) x]
               \<and> resourceFirewallRead dp conn d r1 = ((diags, d'), post, r')))
       \<and> (\<not> ErrMessageContains (Some e) ErrCodeInvalidRequestException ''inaccessible'' \<longrightarrow>
            post = []
            \<and> diags = [Errorf ''disassociating NetworkFirewall Firewall (%s) subnets: %s'' (IdOf d) e]
            \<and> d' = d)"
  using update_failure_position [OF assms(1,2)] by blast

theorem disassociate_inaccessible_witness:
  "ErrMessageContains (Some inaccessibleError) ErrCodeInvalidRequestException ''inaccessible''
   \<and> callsOf inaccessibleRun
       = [Mutated (DisassociateSubnets ''arn:fw'' [''subnet-c''] ''t0'') (Inl inaccessibleError),
          Described ''arn:fw'' (Inr (Some (describeOutput ''READY'' ''t0'')))]
   \<and> fst (fst inaccessibleRun) = []
   \<and> (\<exists>r1 x. [Described ''arn:fw'' (Inr (Some (describeOutput ''READY'' ''t0'')))]
                 = [Described (IdOf removalData) x]
         \<and> resourceFirewallRead sampleDeps scriptedConn removalData r1
             = ((fst (fst inaccessibleRun), snd (fst inaccessibleRun)),
                [Described ''arn:fw'' (Inr (Some (describeOutput ''READY'' ''t0'')))],
                snd (snd inaccessibleRun)))"
proof -
  have soft: "ErrMessageContains (Some inaccessibleError) ErrCodeInvalidRequestException ''inaccessible''"
    by code_simp
  have calls: "callsOf inaccessibleRun
       = [] @ Mutated (DisassociateSubnets ''arn:fw'' [''subnet-c''] ''t0'') (Inl inaccessibleError)
          # [Described ''arn:fw'' (Inr (Some (describeOutput ''READY'' ''t0'')))]"
    by code_simp
  have diags: "fst (fst inaccessibleRun) = []" by code_simp
  have run: "resourceFirewallUpdate sampleDeps scriptedConn removalData inaccessibleScript
      = ((fst (fst inaccessibleRun), snd (fst inaccessibleRun)), callsOf inaccessibleRun,
         snd (snd inaccessibleRun))"
    by (simp add: inaccessibleRun_def callsOf_def)
  from disassociate_inaccessible [OF run calls, THEN conjunct1, rule_format, OF soft]
  have ex: "\<exists>r1 x. [Described ''arn:fw'' (Inr (Some (describeOutput ''READY'' ''t0'')))]
                 = [Described (IdOf removalData) x]
         \<and> resourceFirewallRead sampleDeps scriptedConn removalData r1
             = ((fst (fst inaccessibleRun), snd (fst inaccessibleRun)),
                [Described ''arn:fw'' (Inr (Some (describeOutput ''READY'' ''t0'')))],
                snd (snd inaccessibleRun))"
    .
  have calls': "callsOf inaccessibleRun
       = [Mutated (DisassociateSubnets ''arn:fw'' [''subnet-c''] ''t0'') (Inl inaccessibleError),
          Described ''arn:fw'' (Inr (Some (describeOutput ''READY'' ''t0'')))]"
    using calls by simp
  show ?thesis by (intro conjI) (fact soft, fact calls', fact diags, fact ex)
qed

section \<open>The wait after an addition\<close>

lemma isAssocOk_subnet: "isAssocOk z \<Longrightarrow> isSubnetCall z"
  by (cases z rule: isAssocOk.cases) auto

lemma disPhase_shape:
  assumes "disPhase d rem tok D res"
  shows "D = [] \<or> (\<exists>y W'. D = Mutated (DisassociateSubnets (IdOf d) rem tok) y # W'
                      \<and> (\<forall>z \<in> set W'. \<not> isSubnetCall z))"
  using assms
proof cases
  case (dis_wait_fail W out e)
  then show ?thesis using waitTrace_not_failed by blast
next
  case (dis_ok W tok' out)
  then show ?thesis using waitTrace_not_failed by blast
qed simp_all

lemma associate_post:
  assumes w: "waitTrace (IdOf d) W x" and post: "post = W @ rest"
    and rest: "rest = [] \<or> (\<exists>tokA D res R. x = Some tokA \<and> disPhase d rem tokA D res
                 \<and> rest = D @ R \<and> (\<forall>z \<in> set R. \<not> isSubnetCall z))"
  shows "(\<exists>polls. post = Slept 30 # polls)
       \<and> (\<forall>mid a' ids t' y post'. post = mid @ Mutated (DisassociateSubnets a' ids t') y # post' \<longrightarrow>
            (\<exists>polls outp st. mid = Slept 30 # polls @ [Described (IdOf d) (Inr (Some outp))]
               \<and> (\<forall>p \<in> set polls. isProbe (IdOf d) p
                      \<and> (probedStatus p = None
                           \<or> probedStatus p = Some FirewallStatusValueProvisioning))
               \<and> FirewallStatusOf outp = Some st
               \<and> StringValue (Status st) = FirewallStatusValueReady
               \<and> t' = StringValue (UpdateToken outp)))"
proof (intro conjI allI impI)
  from w obtain P where P: "W = Slept 30 # P" "\<forall>z \<in> set P. isProbe (IdOf d) z"
    by (rule waitTrace_events)
  then show "\<exists>polls. post = Slept 30 # polls" using post by simp
next
  fix mid a' ids t' y post'
  assume sp: "post = mid @ Mutated (DisassociateSubnets a' ids t') y # post'"
  note nsW = waitTrace_not_failed [OF w]
  let ?Y = "Mutated (DisassociateSubnets a' ids t') y"
  have Y: "isSubnetCall ?Y" by simp
  have in_post: "?Y \<in> set post" using sp by simp
  from rest show "\<exists>polls outp st. mid = Slept 30 # polls @ [Described (IdOf d) (Inr (Some outp))]
               \<and> (\<forall>p \<in> set polls. isProbe (IdOf d) p
                      \<and> (probedStatus p = None
                           \<or> probedStatus p = Some FirewallStatusValueProvisioning))
               \<and> FirewallStatusOf outp = Some st
               \<and> StringValue (Status st) = FirewallStatusValueReady
               \<and> t' = StringValue (UpdateToken outp)"
  proof
    assume "rest = []"
    then have "?Y \<in> set W" using in_post post by simp
    then show ?thesis using nsW Y by blast
  next
    assume "\<exists>tokA D res R. x = Some tokA \<and> disPhase d rem tokA D res
                 \<and> rest = D @ R \<and> (\<forall>z \<in> set R. \<not> isSubnetCall z)"
    then obtain tokA D res R where x: "x = Some tokA" and dp: "disPhase d rem tokA D res"
      and r: "rest = D @ R" and nsR: "\<forall>z \<in> set R. \<not> isSubnetCall z" by blast
    from disPhase_shape [OF dp] show ?thesis
    proof
      assume "D = []"
      then have "?Y \<in> set W \<union> set R" using in_post post r by simp
      then show ?thesis using nsW nsR Y by blast
    next
      assume "\<exists>y' W'. D = Mutated (DisassociateSubnets (IdOf d) rem tokA) y' # W'
                      \<and> (\<forall>z \<in> set W'. \<not> isSubnetCall z)"
      then obtain y' W' where D: "D = Mutated (DisassociateSubnets (IdOf d) rem tokA) y' # W'"
        and nsW': "\<forall>z \<in> set W'. \<not> isSubnetCall z" by blast
      have eq: "W @ Mutated (DisassociateSubnets (IdOf d) rem tokA) y' # (W' @ R) = mid @ ?Y # post'"
        using sp post r D by simp
      have "\<forall>z \<in> set W. \<not> isSubnetCall z" using nsW by blast
      moreover have "\<forall>z \<in> set (W' @ R). \<not> isSubnetCall z" using nsW' nsR by auto
      ultimately have "mid = W \<and> ?Y = Mutated (DisassociateSubnets (IdOf d) rem tokA) y'"
        using unique_split [of W _ "W' @ R" mid ?Y post' isSubnetCall, OF eq Y] by blast
      then have mid: "mid = W" and t': "t' = tokA" by simp_all
      from w x obtain P P0 outp st where "W = Slept 30 # P" "\<forall>z \<in> set P. isProbe (IdOf d) z"
        "P = P0 @ [Described (IdOf d) (Inr (Some outp))]"
        "\<forall>z \<in> set P0. probedStatus z = None \<or> probedStatus z = Some FirewallStatusValueProvisioning"
        "FirewallStatusOf outp = Some st"
        "StringValue (Status st) = FirewallStatusValueReady" "tokA = StringValue (UpdateToken outp)"
        unfolding waitTrace_def by blast
      then show ?thesis using mid t' by auto
    qed
  qed
qed

lemma update_associate_position:
  assumes upd: "resourceFirewallUpdate dp conn d r = ((diags, d'), evs, r')"
    and split: "evs = pre @ Mutated (AssociateSubnets a v t) (Inr out) # post"
  shows "\<exists>W x rest rem. waitTrace (IdOf d) W x \<and> post = W @ rest
           \<and> (rest = [] \<or> (\<exists>tokA D res R. x = Some tokA \<and> disPhase d rem tokA D res
                 \<and> rest = D @ R \<and> (\<forall>z \<in> set R. \<not> isSubnetCall z)))"
proof -
  let ?G = "\<exists>W x rest rem. waitTrace (IdOf d) W x \<and> post = W @ rest
           \<and> (rest = [] \<or> (\<exists>tokA D res R. x = Some tokA \<and> disPhase d rem tokA D res
                 \<and> rest = D @ R \<and> (\<forall>z \<in> set R. \<not> isSubnetCall z)))"
  have fin1: "\<And>W. waitTrace (IdOf d) W None \<Longrightarrow> post = W \<Longrightarrow> ?G"
  proof -
    fix W assume "waitTrace (IdOf d) W None" "post = W"
    then have "waitTrace (IdOf d) W None \<and> post = W @ []
           \<and> ([] = ([] :: event list) \<or> (\<exists>tokA D res R. None = Some tokA \<and> disPhase d [] tokA D res
                 \<and> [] = D @ R \<and> (\<forall>z \<in> set R. \<not> isSubnetCall z)))"
      by simp
    then show ?G by (intro exI)
  qed
  have fin2: "\<And>W tokA rem D res R. waitTrace (IdOf d) W (Some tokA) \<Longrightarrow> post = W @ D @ R \<Longrightarrow>
      disPhase d rem tokA D res \<Longrightarrow> \<forall>z \<in> set R. \<not> isSubnetCall z \<Longrightarrow> ?G"
  proof -
    fix W tokA rem D res R
    assume a: "waitTrace (IdOf d) W (Some tokA)" "post = W @ D @ R" "disPhase d rem tokA D res"
      "\<forall>z \<in> set R. \<not> isSubnetCall z"
    then have "\<exists>tokA' D' res' R'. Some tokA = Some tokA' \<and> disPhase d rem tokA' D' res'
                 \<and> D @ R = D' @ R' \<and> (\<forall>z \<in> set R'. \<not> isSubnetCall z)"
      by (intro exI [of _ tokA] exI [of _ D] exI [of _ res] exI [of _ R]) simp
    with a(1,2) have "waitTrace (IdOf d) W (Some tokA) \<and> post = W @ (D @ R)
           \<and> (D @ R = [] \<or> (\<exists>tokA' D' res' R'. Some tokA = Some tokA' \<and> disPhase d rem tokA' D' res'
                 \<and> D @ R = D' @ R' \<and> (\<forall>z \<in> set R'. \<not> isSubnetCall z)))"
      by simp
    then show ?G by (intro exI)
  qed
  let ?X = "Mutated (AssociateSubnets a v t) (Inr out)"
  have key: "\<And>xs y ys. evs = xs @ y # ys \<Longrightarrow> \<forall>z \<in> set xs. \<not> isAssocOk z \<Longrightarrow>
      \<forall>z \<in> set ys. \<not> isAssocOk z \<Longrightarrow> post = ys"
    using unique_split [of _ _ _ pre ?X post isAssocOk] split by simp
  have none: "\<forall>z \<in> set evs. \<not> isAssocOk z \<Longrightarrow> False"
    using split by auto
  have ns: "\<And>zs. \<forall>z \<in> set zs. \<not> isSubnetCall z \<Longrightarrow> \<forall>z \<in> set zs. \<not> isAssocOk z"
    using isAssocOk_subnet by blast
  have disA: "\<And>rem tokA D res. disPhase d rem tokA D res \<Longrightarrow> \<forall>z \<in> set D. \<not> isAssocOk z"
  proof -
    fix rem tokA D res assume "disPhase d rem tokA D res"
    from disPhase_shape [OF this] show "\<forall>z \<in> set D. \<not> isAssocOk z"
      using isAssocOk_subnet by fastforce
  qed
  from upd show ?thesis
  proof (cases rule: update_trace)
    case (scalar_failed S0 m e msg)
    have "\<forall>z \<in> set S0. \<not> isAssocOk z"
      using scalarChain_not_subnet [OF scalar_failed(2)] scalar_failed(3) ns by simp
    then have "\<forall>z \<in> set evs. \<not> isAssocOk z" using scalar_failed(1) by auto
    then show ?thesis using none by blast
  next
    case (subnet_failed S tokS M)
    have nsS: "\<forall>z \<in> set S. \<not> isAssocOk z"
      using scalarChain_not_subnet [OF subnet_failed(2)] ns by simp
    from subnet_failed(4) show ?thesis
    proof cases
      case (subnet_assoc_stopped rem add)
      from subnet_assoc_stopped(3) show ?thesis
      proof cases
        case (assoc_fail e')
        then have "\<forall>z \<in> set evs. \<not> isAssocOk z" using subnet_failed(1) nsS by auto
        then show ?thesis using none by blast
      next
        case (assoc_wait_fail W out' e')
        have w: "waitTrace (IdOf d) W None" using assoc_wait_fail by blast
        have "\<forall>z \<in> set W. \<not> isAssocOk z" using waitTrace_not_failed [OF w] ns by blast
        from key [of S _ W] subnet_failed(1) assoc_wait_fail(1) nsS this
        have "post = W" by simp
        with w show ?thesis by (rule fin1)
      qed
    next
      case (subnet_assoc_done rem add A tokA D)
      note dph = \<open>disPhase d rem tokA D (Inl diags)\<close>
      from subnet_assoc_done(4) show ?thesis
      proof cases
        case assoc_skip
        then have "\<forall>z \<in> set evs. \<not> isAssocOk z"
          using subnet_failed(1) subnet_assoc_done(1) nsS disA [OF dph] by auto
        then show ?thesis using none by blast
      next
        case (assoc_ok W out')
        have w: "waitTrace (IdOf d) W (Some tokA)" using assoc_ok by blast
        have "\<forall>z \<in> set (W @ D). \<not> isAssocOk z"
          using waitTrace_not_failed [OF w] ns disA [OF dph] by auto
        from key [of S _ "W @ D"] subnet_failed(1) subnet_assoc_done(1) assoc_ok(1) nsS this
        have p: "post = W @ D @ []" by simp
        show ?thesis by (rule fin2 [OF w p dph]) simp
      qed
    qed
  next
    case (completed S tokS M tokM x r1)
    have nsS: "\<forall>z \<in> set S. \<not> isAssocOk z"
      using scalarChain_not_subnet [OF completed(2)] ns by simp
    from completed(4) show ?thesis
    proof cases
      case subnet_unchanged
      then have "\<forall>z \<in> set evs. \<not> isAssocOk z" using completed(1) nsS by auto
      then show ?thesis using none by blast
    next
      case (subnet_assoc_done rem add A tokA D)
      note dph = \<open>disPhase d rem tokA D (Inr tokM)\<close>
      from subnet_assoc_done(4) show ?thesis
      proof cases
        case assoc_skip
        then have "\<forall>z \<in> set evs. \<not> isAssocOk z"
          using completed(1) subnet_assoc_done(1) nsS disA [OF dph] by auto
        then show ?thesis using none by blast
      next
        case (assoc_ok W out')
        have w: "waitTrace (IdOf d) W (Some tokA)" using assoc_ok by blast
        have "\<forall>z \<in> set (W @ D @ [Described (IdOf d) x]). \<not> isAssocOk z"
          using waitTrace_not_failed [OF w] ns disA [OF dph] by auto
        from key [of S _ "W @ D @ [Described (IdOf d) x]"] completed(1) subnet_assoc_done(1)
          assoc_ok(1) nsS this
        have p: "post = W @ D @ [Described (IdOf d) x]" by simp
        show ?thesis by (rule fin2 [OF w p dph]) simp
      qed
    qed
  qed
qed

lemma wait_delays:
  "(\<exists>evs. callsOf (waitFirewallUpdated conn T a r) = Slept 30 # evs)
   \<and> (\<exists>evs. callsOf (waitFirewallCreated conn T a r) = Slept 0 # evs)
   \<and> (\<exists>evs. callsOf (waitFirewallDeleted conn T a r) = Slept 0 # evs)"
  by (simp add: waitFirewallUpdated_def waitFirewallCreated_def waitFirewallDeleted_def
      WaitForStateContext_def callsOf_def Let_def split: prod.splits option.splits)

lemma disPhase_failed_calls:
  assumes "disPhase d rem tok D (Inl ds)"
  shows "D \<noteq> []"
  using assms by cases simp_all

lemma update_associate_outcome:
  assumes upd: "resourceFirewallUpdate dp conn d r = ((diags, d'), evs, r')"
    and split: "evs = pre @ Mutated (AssociateSubnets a v t) (Inr out) # post"
  shows "\<exists>polls rest. post = Slept 30 # polls @ rest \<and> (\<forall>p \<in> set polls. isProbe (IdOf d) p)
           \<and> ((rest = []
                \<and> (\<exists>e. diags = [Errorf ''waiting for NetworkFirewall Firewall (%s) update: %s'' (IdOf d) e])
                \<and> d' = d)
              \<or> (\<exists>polls0 outp st. polls = polls0 @ [Described (IdOf d) (Inr (Some outp))]
                   \<and> (\<forall>z \<in> set polls0. probedStatus z = None
                          \<or> probedStatus z = Some FirewallStatusValueProvisioning)
                   \<and> FirewallStatusOf outp = Some st
                   \<and> StringValue (Status st) = FirewallStatusValueReady
                   \<and> ((\<exists>x r1. rest = [Described (IdOf d) x]
                          \<and> resourceFirewallRead dp conn d r1 = ((diags, d'), rest, r'))
                      \<or> (\<exists>rem y rest'. rest = Mutated (DisassociateSubnets (IdOf d) rem
                                                 (StringValue (UpdateToken outp))) y # rest'))))"
proof -
  let ?msg = "''waiting for NetworkFirewall Firewall (%s) update: %s''"
  let ?G = "\<exists>polls rest. post = Slept 30 # polls @ rest \<and> (\<forall>p \<in> set polls. isProbe (IdOf d) p)
           \<and> ((rest = []
                \<and> (\<exists>e. diags = [Errorf ?msg (IdOf d) e])
                \<and> d' = d)
              \<or> (\<exists>polls0 outp st. polls = polls0 @ [Described (IdOf d) (Inr (Some outp))]
                   \<and> (\<forall>z \<in> set polls0. probedStatus z = None
                          \<or> probedStatus z = Some FirewallStatusValueProvisioning)
                   \<and> FirewallStatusOf outp = Some st
                   \<and> StringValue (Status st) = FirewallStatusValueReady
                   \<and> ((\<exists>x r1. rest = [Described (IdOf d) x]
                          \<and> resourceFirewallRead dp conn d r1 = ((diags, d'), rest, r'))
                      \<or> (\<exists>rem y rest'. rest = Mutated (DisassociateSubnets (IdOf d) rem
                                                 (StringValue (UpdateToken outp))) y # rest'))))"
  have fin1: ?G if w: "waitTrace (IdOf d) W None" and p: "post = W"
    and dg: "diags = [Errorf ?msg (IdOf d) e]" and same: "d' = d" for W e
  proof -
    from w obtain P where P: "W = Slept 30 # P" "\<forall>z \<in> set P. isProbe (IdOf d) z"
      by (rule waitTrace_events)
    have "post = Slept 30 # P @ []" using p P(1) by simp
    moreover have "[] = ([] :: event list) \<and> (\<exists>e. diags = [Errorf ?msg (IdOf d) e]) \<and> d' = d"
      using dg same by simp
    ultimately show ?G using P(2) by blast
  qed
  have fin2: ?G if w: "waitTrace (IdOf d) W (Some tokA)" and p: "post = W @ D @ R"
    and dph: "disPhase d rem tokA D res"
    and fin: "D \<noteq> [] \<or> (\<exists>x r1. R = [Described (IdOf d) x]
                 \<and> resourceFirewallRead dp conn d r1 = ((diags, d'), R, r'))"
    for W tokA rem D res R
  proof -
    from w obtain P P0 outp st where W: "W = Slept 30 # P" and probes: "\<forall>z \<in> set P. isProbe (IdOf d) z"
      and P: "P = P0 @ [Described (IdOf d) (Inr (Some outp))]"
      and before: "\<forall>z \<in> set P0. probedStatus z = None \<or> probedStatus z = Some FirewallStatusValueProvisioning"
      and st: "FirewallStatusOf outp = Some st" "StringValue (Status st) = FirewallStatusValueReady"
      and tok: "tokA = StringValue (UpdateToken outp)"
      unfolding waitTrace_def by blast
    have post: "post = Slept 30 # P @ (D @ R)" using p W by simp
    have next_call: "(\<exists>x r1. D @ R = [Described (IdOf d) x]
                          \<and> resourceFirewallRead dp conn d r1 = ((diags, d'), D @ R, r'))
                      \<or> (\<exists>rem y rest'. D @ R = Mutated (DisassociateSubnets (IdOf d) rem
                                                 (StringValue (UpdateToken outp))) y # rest')"
    proof (cases "D = []")
      case True
      then show ?thesis using fin by simp
    next
      case False
      with disPhase_shape [OF dph] obtain y W' where
        "D = Mutated (DisassociateSubnets (IdOf d) rem tokA) y # W'" by blast
      then have "D @ R = Mutated (DisassociateSubnets (IdOf d) rem
          (StringValue (UpdateToken outp))) y # (W' @ R)" using tok by simp
      then show ?thesis by blast
    qed
    have "\<exists>polls0 outp st. P = polls0 @ [Described (IdOf d) (Inr (Some outp))]
                   \<and> (\<forall>z \<in> set polls0. probedStatus z = None
                          \<or> probedStatus z = Some FirewallStatusValueProvisioning)
                   \<and> FirewallStatusOf outp = Some st
                   \<and> StringValue (Status st) = FirewallStatusValueReady
                   \<and> ((\<exists>x r1. D @ R = [Described (IdOf d) x]
                          \<and> resourceFirewallRead dp conn d r1 = ((diags, d'), D @ R, r'))
                      \<or> (\<exists>rem y rest'. D @ R = Mutated (DisassociateSubnets (IdOf d) rem
                                                 (StringValue (UpdateToken outp))) y # rest'))"
      using P before st next_call by (intro exI [of _ P0] exI [of _ outp] exI [of _ st]) simp
    then have "post = Slept 30 # P @ (D @ R) \<and> (\<forall>p \<in> set P. isProbe (IdOf d) p)
           \<and> ((D @ R = []
                \<and> (\<exists>e. diags = [Errorf ?msg (IdOf d) e])
                \<and> d' = d)
              \<or> (\<exists>polls0 outp st. P = polls0 @ [Described (IdOf d) (Inr (Some outp))]
                   \<and> (\<forall>z \<in> set polls0. probedStatus z = None
                          \<or> probedStatus z = Some FirewallStatusValueProvisioning)
                   \<and> FirewallStatusOf outp = Some st
                   \<and> StringValue (Status st) = FirewallStatusValueReady
                   \<and> ((\<exists>x r1. D @ R = [Described (IdOf d) x]
                          \<and> resourceFirewallRead dp conn d r1 = ((diags, d'), D @ R, r'))
                      \<or> (\<exists>rem y rest'. D @ R = Mutated (DisassociateSubnets (IdOf d) rem
                                                 (StringValue (UpdateToken outp))) y # rest'))))"
      using post probes by simp
    then show ?G by (intro exI)
  qed
  let ?X = "Mutated (AssociateSubnets a v t) (Inr out)"
  have key: "\<And>xs y ys. evs = xs @ y # ys \<Longrightarrow> \<forall>z \<in> set xs. \<not> isAssocOk z \<Longrightarrow>
      \<forall>z \<in> set ys. \<not> isAssocOk z \<Longrightarrow> post = ys"
    using unique_split [of _ _ _ pre ?X post isAssocOk] split by simp
  have none: "\<forall>z \<in> set evs. \<not> isAssocOk z \<Longrightarrow> False"
    using split by auto
  have ns: "\<And>zs. \<forall>z \<in> set zs. \<not> isSubnetCall z \<Longrightarrow> \<forall>z \<in> set zs. \<not> isAssocOk z"
    using isAssocOk_subnet by blast
  have disA: "\<And>rem tokA D res. disPhase d rem tokA D res \<Longrightarrow> \<forall>z \<in> set D. \<not> isAssocOk z"
  proof -
    fix rem tokA D res assume "disPhase d rem tokA D res"
    from disPhase_shape [OF this] show "\<forall>z \<in> set D. \<not> isAssocOk z"
      using isAssocOk_subnet by fastforce
  qed
  from upd show ?thesis
  proof (cases rule: update_trace)
    case (scalar_failed S0 m e msg)
    have "\<forall>z \<in> set S0. \<not> isAssocOk z"
      using scalarChain_not_subnet [OF scalar_failed(2)] scalar_failed(3) ns by simp
    then have "\<forall>z \<in> set evs. \<not> isAssocOk z" using scalar_failed(1) by auto
    then show ?thesis using none by blast
  next
    case (subnet_failed S tokS M)
    have nsS: "\<forall>z \<in> set S. \<not> isAssocOk z"
      using scalarChain_not_subnet [OF subnet_failed(2)] ns by simp
    from subnet_failed(4) show ?thesis
    proof cases
      case (subnet_assoc_stopped rem add)
      from subnet_assoc_stopped(3) show ?thesis
      proof cases
        case (assoc_fail e')
        then have "\<forall>z \<in> set evs. \<not> isAssocOk z" using subnet_failed(1) nsS by auto
        then show ?thesis using none by blast
      next
        case (assoc_wait_fail W out' e')
        have w: "waitTrace (IdOf d) W None" using assoc_wait_fail by blast
        have dg: "diags = [Errorf ?msg (IdOf d) e']" using assoc_wait_fail by simp
        have "\<forall>z \<in> set W. \<not> isAssocOk z" using waitTrace_not_failed [OF w] ns by blast
        from key [of S _ W] subnet_failed(1) assoc_wait_fail(1) nsS this
        have "post = W" by simp
        from w this dg subnet_failed(5) show ?thesis by (rule fin1)
      qed
    next
      case (subnet_assoc_done rem add A tokA D)
      note dph = \<open>disPhase d rem tokA D (Inl diags)\<close>
      from subnet_assoc_done(4) show ?thesis
      proof cases
        case assoc_skip
        then have "\<forall>z \<in> set evs. \<not> isAssocOk z"
          using subnet_failed(1) subnet_assoc_done(1) nsS disA [OF dph] by auto
        then show ?thesis using none by blast
      next
        case (assoc_ok W out')
        have w: "waitTrace (IdOf d) W (Some tokA)" using assoc_ok by blast
        have "\<forall>z \<in> set (W @ D). \<not> isAssocOk z"
          using waitTrace_not_failed [OF w] ns disA [OF dph] by auto
        from key [of S _ "W @ D"] subnet_failed(1) subnet_assoc_done(1) assoc_ok(1) nsS this
        have p: "post = W @ D @ []" by simp
        show ?thesis by (rule fin2 [OF w p dph]) (simp add: disPhase_failed_calls [OF dph])
      qed
    qed
  next
    case (completed S tokS M tokM x r1)
    have nsS: "\<forall>z \<in> set S. \<not> isAssocOk z"
      using scalarChain_not_subnet [OF completed(2)] ns by simp
    from completed(4) show ?thesis
    proof cases
      case subnet_unchanged
      then have "\<forall>z \<in> set evs. \<not> isAssocOk z" using completed(1) nsS by auto
      then show ?thesis using none by blast
    next
      case (subnet_assoc_done rem add A tokA D)
      note dph = \<open>disPhase d rem tokA D (Inr tokM)\<close>
      from subnet_assoc_done(4) show ?thesis
      proof cases
        case assoc_skip
        then have "\<forall>z \<in> set evs. \<not> isAssocOk z"
          using completed(1) subnet_assoc_done(1) nsS disA [OF dph] by auto
        then show ?thesis using none by blast
      next
        case (assoc_ok W out')
        have w: "waitTrace (IdOf d) W (Some tokA)" using assoc_ok by blast
        have "\<forall>z \<in> set (W @ D @ [Described (IdOf d) x]). \<not> isAssocOk z"
          using waitTrace_not_failed [OF w] ns disA [OF dph] by auto
        from key [of S _ "W @ D @ [Described (IdOf d) x]"] completed(1) subnet_assoc_done(1)
          assoc_ok(1) nsS this
        have p: "post = W @ D @ [Described (IdOf d) x]" by simp
        have "\<exists>x' r1. [Described (IdOf d) x] = [Described (IdOf d) x']
                 \<and> resourceFirewallRead dp conn d r1 = ((diags, d'), [Described (IdOf d) x], r')"
          using completed(5) by blast
        then show ?thesis by (intro fin2 [OF w p dph] disjI2)
      qed
    qed
  qed
qed

text \<open>
  Claim C3. After a successful \<open>AssociateSubnets\<close> the pass sleeps thirty
  seconds and then probes the firewall, and nothing else, until the wait ends.
  Either the wait fails: then nothing follows and the pass returns the error
  of the wait, with the resource data unchanged. Or the wait succeeds: then
  its last probe read the status \<open>READY\<close>, every probe before it returned no
  status or the status \<open>PROVISIONING\<close>, and what follows is the final read
  alone, whose result the pass returns, or starts with the
  \<open>DisassociateSubnets\<close> call, which carries the token of that last probe,
  whatever token the addition returned. The wait of the update starts with a
  delay of thirty seconds, the waits of create and delete with none.
\<close>

theorem associate_waits_and_rereads:
  assumes "resourceFirewallUpdate dp conn d r = ((diags, d'), evs, r')"
    and "evs = pre @ Mutated (AssociateSubnets a v t) (Inr out) # post"
  shows "(\<exists>polls rest. post = Slept 30 # polls @ rest \<and> (\<forall>p \<in> set polls. isProbe (IdOf d) p)
           \<and> ((rest = []
                \<and> (\<exists>e. diags = [Errorf ''waiting for NetworkFirewall Firewall (%s) update: %s'' (IdOf d) e])
                \<and> d' = d)
              \<or> (\<exists>polls0 outp st. polls = polls0 @ [Described (IdOf d) (Inr (Some outp))]
                   \<and> (\<forall>z \<in> set polls0. probedStatus z = None
                          \<or> probedStatus z = Some FirewallStatusValueProvisioning)
                   \<and> FirewallStatusOf outp = Some st
                   \<and> StringValue (Status st) = FirewallStatusValueReady
                   \<and> ((\<exists>x r1. rest = [Described (IdOf d) x]
                          \<and> resourceFirewallRead dp conn d r1 = ((diags, d'), rest, r'))
                      \<or> (\<exists>rem y rest'. rest = Mutated (DisassociateSubnets (IdOf d) rem
                                                 (StringValue (UpdateToken outp))) y # rest')))))
       \<and> (\<forall>mid a' ids t' y post'. post = mid @ Mutated (DisassociateSubnets a' ids t') y # post' \<longrightarrow>
            (\<exists>polls outp st. mid = Slept 30 # polls @ [Described (IdOf d) (Inr (Some outp))]
               \<and> (\<forall>p \<in> set polls. isProbe (IdOf d) p
                      \<and> (probedStatus p = None
                           \<or> probedStatus p = Some FirewallStatusValueProvisioning))
               \<and> FirewallStatusOf outp = Some st
               \<and> StringValue (Status st) = FirewallStatusValueReady
               \<and> t' = StringValue (UpdateToken outp)))
       \<and> (\<forall>T a r. (\<exists>evs. callsOf (waitFirewallUpdated conn T a r) = Slept 30 # evs)
            \<and> (\<exists>evs. callsOf (waitFirewallCreated conn T a r) = Slept 0 # evs)
            \<and> (\<exists>evs. callsOf (waitFirewallDeleted conn T a r) = Slept 0 # evs))"
proof -
  note outcome = update_associate_outcome [OF assms]
  from update_associate_position [OF assms]
  obtain W x rest rem where "waitTrace (IdOf d) W x" "post = W @ rest"
    "rest = [] \<or> (\<exists>tokA D res R. x = Some tokA \<and> disPhase d rem tokA D res
                 \<and> rest = D @ R \<and> (\<forall>z \<in> set R. \<not> isSubnetCall z))"
    by (elim exE conjE)
  note p = associate_post [OF this, THEN conjunct2]
  have w: "\<forall>T a r. (\<exists>evs. callsOf (waitFirewallUpdated conn T a r) = Slept 30 # evs)
            \<and> (\<exists>evs. callsOf (waitFirewallCreated conn T a r) = Slept 0 # evs)
            \<and> (\<exists>evs. callsOf (waitFirewallDeleted conn T a r) = Slept 0 # evs)"
    using wait_delays by (intro allI)
  show ?thesis by (intro conjI) (fact outcome, fact p, fact w)
qed

theorem associate_waits_and_rereads_witness:
  "callsOf sampleRun = take 2 sampleTrace
     @ Mutated (AssociateSubnets ''arn:fw''
                  [\<lparr>SubnetId = Some ''subnet-b'', IPAddressType = Some ''IPV4''\<rparr>] ''t2'')
               (Inr (Some ''t3''))
     # drop 3 sampleTrace
   \<and> drop 3 sampleTrace = take 3 (drop 3 sampleTrace)
     @ Mutated (DisassociateSubnets ''arn:fw'' [''subnet-c''] ''t4'') (Inr (Some ''t5''))
     # drop 7 sampleTrace
   \<and> (\<exists>polls outp st.
         take 3 (drop 3 sampleTrace)
           = Slept 30 # polls @ [Described (IdOf sampleData) (Inr (Some outp))]
         \<and> (\<forall>p \<in> set polls. isProbe (IdOf sampleData) p
                \<and> (probedStatus p = None
                     \<or> probedStatus p = Some FirewallStatusValueProvisioning))
         \<and> FirewallStatusOf outp = Some st
         \<and> StringValue (Status st) = FirewallStatusValueReady
         \<and> ''t4'' = StringValue (UpdateToken outp))
   \<and> StringValue (Some ''t3'') \<noteq> ''t4''
   \<and> callsOf additionRun = []
     @ Mutated (AssociateSubnets ''arn:fw''
                  [\<lparr>SubnetId = Some ''subnet-b'', IPAddressType = Some ''IPV4''\<rparr>] ''t0'')
               (Inr (Some ''t1''))
     # drop 1 additionTrace
   \<and> fst (fst additionRun) = []
   \<and> (\<exists>polls0 outp st rest.
         drop 1 additionTrace
           = Slept 30 # (polls0 @ [Described (IdOf additionData) (Inr (Some outp))]) @ rest
         \<and> (\<forall>z \<in> set polls0. probedStatus z = None
                \<or> probedStatus z = Some FirewallStatusValueProvisioning)
         \<and> FirewallStatusOf outp = Some st
         \<and> StringValue (Status st) = FirewallStatusValueReady)"
proof -
  have s1: "callsOf sampleRun = take 2 sampleTrace
     @ Mutated (AssociateSubnets ''arn:fw''
                  [\<lparr>SubnetId = Some ''subnet-b'', IPAddressType = Some ''IPV4''\<rparr>] ''t2'')
               (Inr (Some ''t3''))
     # drop 3 sampleTrace"
    unfolding sampleRun_calls by code_simp
  have s2: "drop 3 sampleTrace = take 3 (drop 3 sampleTrace)
     @ Mutated (DisassociateSubnets ''arn:fw'' [''subnet-c''] ''t4'') (Inr (Some ''t5''))
     # drop 7 sampleTrace"
    by code_simp
  have run: "resourceFirewallUpdate sampleDeps scriptedConn sampleData sampleScript
      = ((fst (fst sampleRun), snd (fst sampleRun)), callsOf sampleRun, snd (snd sampleRun))"
    by (simp add: sampleRun_def callsOf_def)
  have removal: "\<exists>polls outp st.
         take 3 (drop 3 sampleTrace)
           = Slept 30 # polls @ [Described (IdOf sampleData) (Inr (Some outp))]
         \<and> (\<forall>p \<in> set polls. isProbe (IdOf sampleData) p
                \<and> (probedStatus p = None
                     \<or> probedStatus p = Some FirewallStatusValueProvisioning))
         \<and> FirewallStatusOf outp = Some st
         \<and> StringValue (Status st) = FirewallStatusValueReady
         \<and> ''t4'' = StringValue (UpdateToken outp)"
    by (rule associate_waits_and_rereads [OF run s1, THEN conjunct2, THEN conjunct1,
          rule_format, OF s2])
  have tokens: "StringValue (Some ''t3'') \<noteq> ''t4''" by (simp add: StringValue_def)
  have a1: "callsOf additionRun = []
     @ Mutated (AssociateSubnets ''arn:fw''
                  [\<lparr>SubnetId = Some ''subnet-b'', IPAddressType = Some ''IPV4''\<rparr>] ''t0'')
               (Inr (Some ''t1''))
     # drop 1 additionTrace"
    unfolding additionRun_calls by code_simp
  have arun: "resourceFirewallUpdate sampleDeps scriptedConn additionData additionScript
      = ((fst (fst additionRun), snd (fst additionRun)), callsOf additionRun, snd (snd additionRun))"
    by (simp add: additionRun_def callsOf_def)
  have nodiags: "fst (fst additionRun) = []" by (rule additionRun_diags)
  from associate_waits_and_rereads [OF arun a1, THEN conjunct1]
  obtain polls rest where post: "drop 1 additionTrace = Slept 30 # polls @ rest"
    and alt: "(rest = []
                \<and> (\<exists>e. fst (fst additionRun) = [Errorf ''waiting for NetworkFirewall Firewall (%s) update: %s'' (IdOf additionData) e])
                \<and> snd (fst additionRun) = additionData)
              \<or> (\<exists>polls0 outp st. polls = polls0 @ [Described (IdOf additionData) (Inr (Some outp))]
                   \<and> (\<forall>z \<in> set polls0. probedStatus z = None
                          \<or> probedStatus z = Some FirewallStatusValueProvisioning)
                   \<and> FirewallStatusOf outp = Some st
                   \<and> StringValue (Status st) = FirewallStatusValueReady
                   \<and> ((\<exists>x r1. rest = [Described (IdOf additionData) x]
                          \<and> resourceFirewallRead sampleDeps scriptedConn additionData r1
                              = ((fst (fst additionRun), snd (fst additionRun)), rest, snd (snd additionRun)))
                      \<or> (\<exists>rem y rest'. rest = Mutated (DisassociateSubnets (IdOf additionData) rem
                                                 (StringValue (UpdateToken outp))) y # rest')))"
    by (elim exE conjE)
  from alt nodiags obtain polls0 outp st where
    "polls = polls0 @ [Described (IdOf additionData) (Inr (Some outp))]"
    "\<forall>z \<in> set polls0. probedStatus z = None \<or> probedStatus z = Some FirewallStatusValueProvisioning"
    "FirewallStatusOf outp = Some st" "StringValue (Status st) = FirewallStatusValueReady"
    by auto
  with post have addition: "\<exists>polls0 outp st rest.
         drop 1 additionTrace
           = Slept 30 # (polls0 @ [Described (IdOf additionData) (Inr (Some outp))]) @ rest
         \<and> (\<forall>z \<in> set polls0. probedStatus z = None
                \<or> probedStatus z = Some FirewallStatusValueProvisioning)
         \<and> FirewallStatusOf outp = Some st
         \<and> StringValue (Status st) = FirewallStatusValueReady"
    by blast
  show ?thesis
    by (intro conjI) (fact s1, fact s2, fact removal, fact tokens, fact a1, fact nodiags, fact addition)
qed

section \<open>An update without changes\<close>

lemma runSteps_skip_all:
  assumes "\<forall>block \<in> set blocks. \<forall>tok r. block tok r = (Inr tok, [], r)"
  shows "runSteps blocks tok r = (Inr tok, [], r)"
  using assms by (induction blocks arbitrary: tok r) auto

text \<open>
  Claim C8. When the prior state equals the planned values, no attribute
  reports a change; and when no attribute reports a change, the update does
  what the read does: its only call is the read of the firewall, with no
  mutation and no wait before it.
\<close>

theorem update_noop:
  "(prior d = cur d \<longrightarrow>
      \<not> HasChange d delete_protection \<and> \<not> HasChange d description
      \<and> \<not> HasChange d encryption_configuration
      \<and> \<not> HasChange d firewall_policy_change_protection
      \<and> \<not> HasChange d firewall_policy_arn \<and> \<not> HasChange d subnet_change_protection
      \<and> \<not> HasChangeSet d subnet_mapping)
   \<and> (\<not> HasChange d delete_protection \<and> \<not> HasChange d description
      \<and> \<not> HasChange d encryption_configuration
      \<and> \<not> HasChange d firewall_policy_change_protection
      \<and> \<not> HasChange d firewall_policy_arn \<and> \<not> HasChange d subnet_change_protection
      \<and> \<not> HasChangeSet d subnet_mapping \<longrightarrow>
        resourceFirewallUpdate dp conn d r = resourceFirewallRead dp conn d r
        \<and> (\<exists>x. callsOf (resourceFirewallUpdate dp conn d r) = [Described (IdOf d) x]))"
proof (intro conjI impI)
  assume nc: "\<not> HasChange d delete_protection \<and> \<not> HasChange d description
      \<and> \<not> HasChange d encryption_configuration
      \<and> \<not> HasChange d firewall_policy_change_protection
      \<and> \<not> HasChange d firewall_policy_arn \<and> \<not> HasChange d subnet_change_protection
      \<and> \<not> HasChangeSet d subnet_mapping"
  have "\<forall>block \<in> set (updateSteps dp conn d). \<forall>tok r. block tok r = (Inr tok, [], r)"
    using nc by (simp add: updateSteps_def scalarUpdate_def updateSubnetMapping_def)
  then have run: "runSteps (updateSteps dp conn d) (update_token (cur d)) r
      = (Inr (update_token (cur d)), [], r)"
    by (rule runSteps_skip_all)
  show eq: "resourceFirewallUpdate dp conn d r = resourceFirewallRead dp conn d r"
    by (simp add: resourceFirewallUpdate_def run Let_def split: prod.splits)
  obtain res R r' where rd: "resourceFirewallRead dp conn d r = (res, R, r')"
    by (metis prod_cases3)
  from resourceFirewallRead_calls [OF rd] rd
  show "\<exists>x. callsOf (resourceFirewallUpdate dp conn d r) = [Described (IdOf d) x]"
    by (simp add: eq callsOf_def)
qed (simp_all add: HasChange_def HasChangeSet_def Equal_def)

theorem update_noop_witness:
  "prior idleData = cur idleData
   \<and> resourceFirewallUpdate sampleDeps scriptedConn idleData readyScript
       = resourceFirewallRead sampleDeps scriptedConn idleData readyScript
   \<and> callsOf (resourceFirewallUpdate sampleDeps scriptedConn idleData readyScript)
       = [Described ''arn:fw'' (Inr (Some (describeOutput ''READY'' ''t0'')))]"
proof -
  have same: "prior idleData = cur idleData" by (simp add: idleData_def sampleData_def)
  have calls: "callsOf (resourceFirewallRead sampleDeps scriptedConn idleData readyScript)
       = [Described ''arn:fw'' (Inr (Some (describeOutput ''READY'' ''t0'')))]"
    by code_simp
  from update_noop [of idleData sampleDeps scriptedConn readyScript] same
  have "resourceFirewallUpdate sampleDeps scriptedConn idleData readyScript
       = resourceFirewallRead sampleDeps scriptedConn idleData readyScript"
    by blast
  with same calls show ?thesis by simp
qed

section \<open>Reading and deleting a firewall that is gone\<close>

lemma FindFirewallByARN_not_found:
  assumes "DescribeFirewallWithContext conn a r = (Inl e, r1)"
    and "ErrCodeEquals (Some e) ErrCodeResourceNotFoundException"
  shows "FindFirewallByARN conn a r = (Inl (NotFoundError (Some e)), [Described a (Inl e)], r1)"
  using assms by (simp add: FindFirewallByARN_def)

text \<open>
  Claim C10. When the firewall is not found and the resource is not new, the
  read clears the identifier and returns no diagnostics; when the resource is
  new, the read returns the error and keeps the identifier. A
  \<open>ResourceNotFoundException\<close> of the remote is such a not-found error. In
  particular the read that ends a creation, whose resource is new, reports a
  firewall that disappeared after the wait.
\<close>

theorem read_not_found:
  "(\<forall>err evs r'. FindFirewallByARN conn (IdOf d) r = (Inl err, evs, r') \<and> NotFound (Some err) \<longrightarrow>
       (\<not> IsNewResource d \<longrightarrow>
          resourceFirewallRead dp conn d r = (([], SetId d []), evs, r') \<and> IdOf (SetId d []) = [])
     \<and> (IsNewResource d \<longrightarrow>
          resourceFirewallRead dp conn d r
            = (([Errorf ''reading NetworkFirewall Firewall (%s): %s'' (IdOf d) err], d), evs, r')))
   \<and> (\<forall>e r'. DescribeFirewallWithContext conn (IdOf d) r = (Inl e, r')
          \<and> ErrCodeEquals (Some e) ErrCodeResourceNotFoundException \<longrightarrow>
        FindFirewallByARN conn (IdOf d) r
          = (Inl (NotFoundError (Some e)), [Described (IdOf d) (Inl e)], r')
        \<and> NotFound (Some (NotFoundError (Some e))))
   \<and> (\<forall>a r1 fw W r2 err evs r3.
          IsNewResource d \<and> (\<forall>input. CreateFirewallWithContext conn input r = (Inr a, r1))
          \<and> waitFirewallCreated conn (TimeoutCreate d) (StringValue a) r1 = ((fw, None), W, r2)
          \<and> FindFirewallByARN conn (StringValue a) r2 = (Inl err, evs, r3) \<and> NotFound (Some err) \<longrightarrow>
        fst (resourceFirewallCreate dp conn d r)
          = ([Errorf ''reading NetworkFirewall Firewall (%s): %s'' (StringValue a) err],
             SetId d (StringValue a)))"
proof (intro conjI allI impI)
  fix e r'
  assume "DescribeFirewallWithContext conn (IdOf d) r = (Inl e, r')
          \<and> ErrCodeEquals (Some e) ErrCodeResourceNotFoundException"
  then show "FindFirewallByARN conn (IdOf d) r
          = (Inl (NotFoundError (Some e)), [Described (IdOf d) (Inl e)], r')"
    by (simp add: FindFirewallByARN_not_found)
next
  fix a r1 fw W r2 err evs r3
  assume a: "IsNewResource d \<and> (\<forall>input. CreateFirewallWithContext conn input r = (Inr a, r1))
          \<and> waitFirewallCreated conn (TimeoutCreate d) (StringValue a) r1 = ((fw, None), W, r2)
          \<and> FindFirewallByARN conn (StringValue a) r2 = (Inl err, evs, r3) \<and> NotFound (Some err)"
  then have rd: "resourceFirewallRead dp conn (SetId d (StringValue a)) r2
      = (([Errorf ''reading NetworkFirewall Firewall (%s): %s'' (StringValue a) err],
          SetId d (StringValue a)), evs, r3)"
    by (simp add: resourceFirewallRead_def SetId_def)
  from a rd show "fst (resourceFirewallCreate dp conn d r)
          = ([Errorf ''reading NetworkFirewall Firewall (%s): %s'' (StringValue a) err],
             SetId d (StringValue a))"
    by (simp add: resourceFirewallCreate_def Let_def SetId_def)
qed (simp_all add: resourceFirewallRead_def SetId_def)

theorem read_not_found_witness:
  "resourceFirewallRead sampleDeps scriptedConn sampleData missingScript
     = (([], SetId sampleData []), [Described ''arn:fw'' (Inl notFoundError)], ([], []))
   \<and> resourceFirewallRead sampleDeps scriptedConn (sampleData\<lparr>IsNewResource := True\<rparr>) missingScript
     = (([Errorf ''reading NetworkFirewall Firewall (%s): %s'' ''arn:fw''
            (NotFoundError (Some notFoundError))], sampleData\<lparr>IsNewResource := True\<rparr>),
        [Described ''arn:fw'' (Inl notFoundError)], ([], []))
   \<and> fst (resourceFirewallCreate sampleDeps scriptedConn newData createScript)
     = ([Errorf ''reading NetworkFirewall Firewall (%s): %s'' ''arn:fw''
           (NotFoundError (Some notFoundError))], SetId newData ''arn:fw'')"
proof -
  have idv: "IdOf sampleData = ''arn:fw''" by (simp add: sampleData_def)
  have rnf: "ErrCodeEquals (Some notFoundError) ErrCodeResourceNotFoundException"
    by code_simp
  have nf: "NotFound (Some (NotFoundError (Some notFoundError)))" by simp
  have desc: "DescribeFirewallWithContext scriptedConn ''arn:fw'' missingScript
      = (Inl notFoundError, ([], []))"
    by (simp add: scriptedConn_def missingScript_def)
  have find: "FindFirewallByARN scriptedConn ''arn:fw'' missingScript
      = (Inl (NotFoundError (Some notFoundError)), [Described ''arn:fw'' (Inl notFoundError)], ([], []))"
    using desc rnf by (simp add: FindFirewallByARN_def)
  note old = read_not_found [of scriptedConn sampleData missingScript sampleDeps,
      THEN conjunct1, rule_format, OF conjI [OF find [folded idv] nf]]
  have new1: "IdOf (sampleData\<lparr>IsNewResource := True\<rparr>) = ''arn:fw''" by (simp add: sampleData_def)
  note new = read_not_found [of scriptedConn "sampleData\<lparr>IsNewResource := True\<rparr>" missingScript
      sampleDeps, THEN conjunct1, rule_format, OF conjI [OF find [folded new1] nf]]
  have c1: "\<forall>input. CreateFirewallWithContext scriptedConn input createScript
      = (Inr (Some ''arn:fw''), ([], [Inr (Some (describeOutput ''READY'' ''t0'')), Inl notFoundError]))"
    by (simp add: scriptedConn_def createScript_def)
  have c2: "waitFirewallCreated scriptedConn (TimeoutCreate newData) (StringValue (Some ''arn:fw''))
        ([], [Inr (Some (describeOutput ''READY'' ''t0'')), Inl notFoundError])
      = ((FirewallOf (describeOutput ''READY'' ''t0''), None),
         [Slept 0, Described ''arn:fw'' (Inr (Some (describeOutput ''READY'' ''t0'')))],
         ([], [Inl notFoundError]))"
    by code_simp
  have c3: "FindFirewallByARN scriptedConn (StringValue (Some ''arn:fw'')) ([], [Inl notFoundError])
      = (Inl (NotFoundError (Some notFoundError)), [Described ''arn:fw'' (Inl notFoundError)], ([], []))"
    using find by (simp add: missingScript_def StringValue_def)
  have c0: "IsNewResource newData" by (simp add: newData_def)
  note create = read_not_found [of scriptedConn newData createScript sampleDeps,
      THEN conjunct2, THEN conjunct2, rule_format,
      OF conjI [OF c0 conjI [OF c1 conjI [OF c2 conjI [OF c3 nf]]]]]
  from old new create show ?thesis
    by (simp add: sampleData_def StringValue_def)
qed

text \<open>
  Claim C5. When \<open>DeleteFirewall\<close> answers that the firewall does not exist,
  delete returns no diagnostics and issues no further call. Any other error
  of the call is returned. When the call succeeds, delete waits with pending
  status \<open>DELETING\<close> and no target status, and returns the error of the wait, if
  any. The status probe turns a not-found read into an absent result without
  error, and a wait without target ends with success at the refresh that
  finds the result absent: a firewall gone at the first probe ends the delete
  with no diagnostics.
\<close>

theorem delete_contract:
  "(\<forall>err r1. DeleteFirewallWithContext conn (IdOf d) r = (err, r1)
        \<and> ErrCodeEquals err ErrCodeResourceNotFoundException \<longrightarrow>
      resourceFirewallDelete conn d r = ([], [Deleted (IdOf d) err], r1))
   \<and> (\<forall>e r1. DeleteFirewallWithContext conn (IdOf d) r = (Some e, r1)
        \<and> \<not> ErrCodeEquals (Some e) ErrCodeResourceNotFoundException \<longrightarrow>
      resourceFirewallDelete conn d r
        = ([Errorf ''deleting NetworkFirewall Firewall (%s): %s'' (IdOf d) e],
           [Deleted (IdOf d) (Some e)], r1))
   \<and> (\<forall>r1. DeleteFirewallWithContext conn (IdOf d) r = (None, r1) \<longrightarrow>
      resourceFirewallDelete conn d r
        = (case WaitForStateContext
                  \<lparr>Delay = 0, Pending = [FirewallStatusValueDeleting], Target = [],
                   Refresh = statusFirewall conn (IdOf d), Timeout = TimeoutDelete d\<rparr> r1 of
             ((outputRaw, werr), W, r2) \<Rightarrow>
               ((case werr of
                   None \<Rightarrow> []
                 | Some e \<Rightarrow>
                     [Errorf ''waiting for NetworkFirewall Firewall (%s) delete: %s'' (IdOf d) e]),
                Deleted (IdOf d) None # W, r2)))
   \<and> (\<forall>a r0 e evs r1. FindFirewallByARN conn a r0 = (Inl e, evs, r1) \<and> NotFound (Some e) \<longrightarrow>
      statusFirewall conn a r0 = ((None, [], None), evs, r1))
   \<and> (\<forall>(conf :: 'r StateChangeConf) n t l r0 s evs r1.
        Target conf = [] \<and> Refresh conf r0 = ((None, s, None), evs, r1) \<longrightarrow>
      refreshLoop (Suc n) t l conf r0 = ((None, None), evs, r1))
   \<and> (\<forall>r1 e r2. DeleteFirewallWithContext conn (IdOf d) r = (None, r1) \<and> 0 < TimeoutDelete d
        \<and> DescribeFirewallWithContext conn (IdOf d) r1 = (Inl e, r2)
        \<and> ErrCodeEquals (Some e) ErrCodeResourceNotFoundException \<longrightarrow>
      resourceFirewallDelete conn d r
        = ([], [Deleted (IdOf d) None, Slept 0, Described (IdOf d) (Inl e)], r2))"
proof (intro conjI allI impI)
  fix r1 e r2
  assume a: "DeleteFirewallWithContext conn (IdOf d) r = (None, r1) \<and> 0 < TimeoutDelete d
        \<and> DescribeFirewallWithContext conn (IdOf d) r1 = (Inl e, r2)
        \<and> ErrCodeEquals (Some e) ErrCodeResourceNotFoundException"
  then obtain n where n: "TimeoutDelete d = Suc n" by (cases "TimeoutDelete d") auto
  from a have "statusFirewall conn (IdOf d) r1 = ((None, [], None), [Described (IdOf d) (Inl e)], r2)"
    by (simp add: statusFirewall_def FindFirewallByARN_not_found)
  then show "resourceFirewallDelete conn d r
        = ([], [Deleted (IdOf d) None, Slept 0, Described (IdOf d) (Inl e)], r2)"
    using a n
    by (simp add: resourceFirewallDelete_def waitFirewallDeleted_def WaitForStateContext_def
        ErrCodeEquals_def Let_def)
next
  fix r1
  assume "DeleteFirewallWithContext conn (IdOf d) r = (None, r1)"
  then show "resourceFirewallDelete conn d r
        = (case WaitForStateContext
                  \<lparr>Delay = 0, Pending = [FirewallStatusValueDeleting], Target = [],
                   Refresh = statusFirewall conn (IdOf d), Timeout = TimeoutDelete d\<rparr> r1 of
             ((outputRaw, werr), W, r2) \<Rightarrow>
               ((case werr of
                   None \<Rightarrow> []
                 | Some e \<Rightarrow>
                     [Errorf ''waiting for NetworkFirewall Firewall (%s) delete: %s'' (IdOf d) e]),
                Deleted (IdOf d) None # W, r2))"
    by (simp add: resourceFirewallDelete_def waitFirewallDeleted_def ErrCodeEquals_def Let_def
        split: prod.splits option.splits)
qed (auto simp: resourceFirewallDelete_def statusFirewall_def)

theorem delete_contract_witness:
  "resourceFirewallDelete scriptedConn sampleData goneScript
     = ([], [Deleted ''arn:fw'' (Some notFoundError)], ([], []))
   \<and> resourceFirewallDelete scriptedConn sampleData deleteScript
     = ([], [Deleted ''arn:fw'' None, Slept 0, Described ''arn:fw'' (Inl notFoundError)], ([], []))"
proof -
  have idv: "IdOf sampleData = ''arn:fw''" by (simp add: sampleData_def)
  have rnf: "ErrCodeEquals (Some notFoundError) ErrCodeResourceNotFoundException"
    by code_simp
  have g: "DeleteFirewallWithContext scriptedConn (IdOf sampleData) goneScript
      = (Some notFoundError, ([], []))"
    by (simp add: scriptedConn_def goneScript_def)
  note gone = delete_contract [of scriptedConn sampleData goneScript,
      THEN conjunct1, rule_format, OF conjI [OF g rnf]]
  have d1: "DeleteFirewallWithContext scriptedConn (IdOf sampleData) deleteScript
      = (None, ([], [Inl notFoundError]))"
    by (simp add: scriptedConn_def deleteScript_def)
  have d2: "0 < TimeoutDelete sampleData" by (simp add: sampleData_def)
  have d3: "DescribeFirewallWithContext scriptedConn (IdOf sampleData) ([], [Inl notFoundError])
      = (Inl notFoundError, ([], []))"
    by (simp add: scriptedConn_def)
  note deleted = delete_contract [of scriptedConn sampleData deleteScript,
      THEN conjunct2, THEN conjunct2, THEN conjunct2, THEN conjunct2, THEN conjunct2,
      rule_format, OF conjI [OF d1 conjI [OF d2 conjI [OF d3 rnf]]]]
  from gone deleted show ?thesis by (simp add: idv)
qed

end
